theory Spec2Isabelle
  imports Main "HOL-Library.Word"
begin

unbundle bit_operations_syntax

section \<open>Machine types and configuration constants\<close>

text \<open>
  The driver runs on 8-bit AVR devices: \<open>uint8_t\<close> is an 8-bit word, \<open>size_t\<close> is
  the 16-bit unsigned type of avr-gcc, \<open>uint64_t\<close> a 64-bit word.
\<close>

type_synonym u8 = "8 word"
type_synonym u16 = "16 word"
type_synonym u64 = "64 word"

text \<open>\<^verbatim>\<open>#define DATA_END_CHAR 0x0D\<close> and \<^verbatim>\<open>#define DATA_LENGTH 50 + 1\<close>
  (AVR_SPI_char_defines.h).\<close>

definition DATA_END_CHAR :: u8 where
  "DATA_END_CHAR = 0x0D"

definition DATA_LENGTH :: nat where
  "DATA_LENGTH = 50 + 1"

text \<open>
  C gives no meaning to an access outside an array.  The model stops with a fault that
  records the offending index instead of inventing a result.
\<close>

datatype fault = OutOfBounds nat

section \<open>Receive side: the globals of AVR\_SPI\_with\_interrupts.cpp\<close>

text \<open>
  \<^verbatim>\<open>uint8_t SPI_data[DATA_LENGTH]\<close>, \<^verbatim>\<open>volatile uint8_t SPI_buffer[DATA_LENGTH]\<close>,
  \<^verbatim>\<open>volatile uint8_t dataIndex\<close>, \<^verbatim>\<open>volatile bool dataReceived\<close>,
  \<^verbatim>\<open>volatile size_t receivedBytes\<close>.  The length of the two lists is the capacity
  the arrays were declared with.
\<close>

record spi_state =
  SPI_data :: "u8 list"
  SPI_buffer :: "u8 list"
  dataIndex :: u8
  dataReceived :: bool
  receivedBytes :: u16

text \<open>Static initialisation: both arrays zeroed, index and counter 0, flag false.  The
  capacity is a parameter so that other values of \<open>DATA_LENGTH\<close> can be examined.\<close>

definition init_state :: "nat \<Rightarrow> spi_state" where
  "init_state cap =
     \<lparr>SPI_data = replicate cap 0, SPI_buffer = replicate cap 0,
      dataIndex = 0, dataReceived = False, receivedBytes = 0\<rparr>"

subsection \<open>The receive interrupt handler\<close>

text \<open>
  \<^verbatim>\<open>ISR(SPI_STC_vect)\<close>; the argument is the byte read from \<open>SPDR\<close>.  The byte is
  stored at \<open>SPI_buffer[dataIndex]\<close> first, whatever it is, and tested afterwards.
  There is no comparison of \<open>dataIndex\<close> with the array bound in the source.
\<close>

definition ISR_SPI_STC :: "u8 \<Rightarrow> spi_state \<Rightarrow> fault + spi_state" where
  "ISR_SPI_STC spdr s =
     (let i = unat (dataIndex s) in
      if i < length (SPI_buffer s) then
        (let s1 = s\<lparr>SPI_buffer := (SPI_buffer s)[i := spdr]\<rparr> in
         if SPI_buffer s1 ! i \<noteq> DATA_END_CHAR
         then Inr (s1\<lparr>dataIndex := dataIndex s1 + 1,
                      receivedBytes := receivedBytes s1 + 1\<rparr>)
         else Inr (s1\<lparr>dataReceived := True, dataIndex := 0\<rparr>))
      else Inl (OutOfBounds i))"

subsection \<open>flushBuffer\<close>

text \<open>\<^verbatim>\<open>for(size_t i = 0; i < size; i++) array[i] = '\0';\<close>  The loop from index
  \<open>i\<close> on.\<close>

function flush_from :: "nat \<Rightarrow> u8 list \<Rightarrow> nat \<Rightarrow> fault + u8 list" where
  "flush_from i array n =
     (if i < n then
        (if i < length array then flush_from (Suc i) (array[i := 0]) n
         else Inl (OutOfBounds i))
      else Inr array)"
  by pat_completeness auto
termination
  by (relation "measure (\<lambda>(i, array, n). n - i)") auto

definition flushBuffer :: "u8 list \<Rightarrow> nat \<Rightarrow> fault + u8 list" where
  "flushBuffer array n = flush_from 0 array n"

subsection \<open>SPI\_readAll\<close>

text \<open>
  The copy loop \<^verbatim>\<open>while(SPI_buffer[i] != DATA_END_CHAR) { SPI_data[i] = SPI_buffer[i]; i++; }\<close>
  from index \<open>i\<close> on.  It stops at the first terminator in the working buffer; the
  source has no other exit.
\<close>

function copy_from :: "nat \<Rightarrow> u8 list \<Rightarrow> u8 list \<Rightarrow> fault + u8 list" where
  "copy_from i buf dat =
     (if i < length buf then
        (if buf ! i \<noteq> DATA_END_CHAR then
           (if i < length dat then copy_from (Suc i) buf (dat[i := buf ! i])
            else Inl (OutOfBounds i))
         else Inr dat)
      else Inl (OutOfBounds i))"
  by pat_completeness auto
termination
  by (relation "measure (\<lambda>(i, buf, dat). length buf - i)") auto

text \<open>
  \<^verbatim>\<open>bool SPI_readAll()\<close>: the returned flag together with the new globals.  The
  second \<open>for\<close> loop of the source, which zeroes \<open>SPI_buffer\<close>, has the body of
  \<open>flushBuffer\<close> and is the same loop function.
\<close>

definition SPI_readAll :: "spi_state \<Rightarrow> fault + (bool \<times> spi_state)" where
  "SPI_readAll s =
     (if dataReceived s then
        (case flushBuffer (SPI_data s) (unat (receivedBytes s)) of
           Inl e \<Rightarrow> Inl e
         | Inr d0 \<Rightarrow>
            (case copy_from 0 (SPI_buffer s) d0 of
               Inl e \<Rightarrow> Inl e
             | Inr d1 \<Rightarrow>
                (case flush_from 0 (SPI_buffer s) (unat (receivedBytes s)) of
                   Inl e \<Rightarrow> Inl e
                 | Inr b1 \<Rightarrow>
                     Inr (True, s\<lparr>SPI_data := d1, SPI_buffer := b1,
                                   dataReceived := False, receivedBytes := 0\<rparr>))))
      else Inr (False, s))"

subsection \<open>Histories of interrupts and foreground calls\<close>

text \<open>A received byte invokes the handler once; \<open>ReadAll\<close> is one call of
  \<open>SPI_readAll\<close> whose result the caller drops.\<close>

datatype event = Rx u8 | ReadAll

fun run :: "event list \<Rightarrow> spi_state \<Rightarrow> fault + spi_state" where
  "run [] s = Inr s"
| "run (Rx b # es) s =
     (case ISR_SPI_STC b s of Inl e \<Rightarrow> Inl e | Inr s' \<Rightarrow> run es s')"
| "run (ReadAll # es) s =
     (case SPI_readAll s of Inl e \<Rightarrow> Inl e | Inr (r, s') \<Rightarrow> run es s')"

text \<open>Delivering a byte sequence: one handler invocation per byte.\<close>

definition receive :: "u8 list \<Rightarrow> spi_state \<Rightarrow> fault + spi_state" where
  "receive bs s = run (map Rx bs) s"

subsection \<open>Notions of the specification about byte streams and histories\<close>

text \<open>The transition as the specification words it: a terminator raises the flag and
  resets the cursor and leaves the buffer alone; any other byte is stored at the cursor,
  which is then incremented.\<close>

definition framer_step_spec :: "u8 \<Rightarrow> spi_state \<Rightarrow> spi_state" where
  "framer_step_spec b s =
     (if b = DATA_END_CHAR then s\<lparr>dataReceived := True, dataIndex := 0\<rparr>
      else s\<lparr>SPI_buffer := (SPI_buffer s)[unat (dataIndex s) := b],
             dataIndex := dataIndex s + 1\<rparr>)"

text \<open>The received byte stream cut at the terminators: the payloads of the messages in
  order of arrival, the last entry being the message still in progress.\<close>

fun payload_runs :: "u8 list \<Rightarrow> u8 list list" where
  "payload_runs [] = [[]]"
| "payload_runs (b # bs) =
     (if b = DATA_END_CHAR then [] # payload_runs bs
      else (case payload_runs bs of r # rs \<Rightarrow> (b # r) # rs | [] \<Rightarrow> [[b]]))"

text \<open>The bytes a history delivers, and the current or just-completed message of a
  byte stream: the payload before a final terminator, otherwise the bytes after the last
  terminator.\<close>

fun rx_bytes :: "event list \<Rightarrow> u8 list" where
  "rx_bytes [] = []"
| "rx_bytes (Rx b # es) = b # rx_bytes es"
| "rx_bytes (ReadAll # es) = rx_bytes es"

definition current_message :: "u8 list \<Rightarrow> u8 list" where
  "current_message bs =
     (if bs \<noteq> [] \<and> last bs = DATA_END_CHAR then last (butlast (payload_runs bs))
      else last (payload_runs bs))"

text \<open>Bookkeeping over a history: whether a terminator has arrived since the last swap,
  and how many non-terminator bytes have arrived since the last swap.  A call of
  \<open>SPI_readAll\<close> swaps exactly when a terminator is pending.\<close>

fun track :: "bool \<times> nat \<Rightarrow> event list \<Rightarrow> bool \<times> nat" where
  "track (pending, n) [] = (pending, n)"
| "track (pending, n) (Rx b # es) =
     (if b = DATA_END_CHAR then track (True, n) es else track (pending, Suc n) es)"
| "track (pending, n) (ReadAll # es) =
     (if pending then track (False, 0) es else track (pending, n) es)"

section \<open>Transmit side: the master's registers and the bus\<close>

text \<open>\<^verbatim>\<open>#define INVERTED_SS_CONTROL 0\<close>, \<^verbatim>\<open>#define DEFAULT_SS_CONTROL 1\<close>
  (AVR_SPI_with_interrupts.h).\<close>

definition INVERTED_SS_CONTROL :: u8 where
  "INVERTED_SS_CONTROL = 0"

definition DEFAULT_SS_CONTROL :: u8 where
  "DEFAULT_SS_CONTROL = 1"

text \<open>
  What the master does to the outside world, in order: a store to the port register
  \<open>*SS_PORTx\<close>, or a store to the data register \<open>SPDR\<close>, which starts the transfer of
  that byte.
\<close>

datatype bus_event = Port u8 | Data u8

text \<open>
  The registers the transmit functions touch.  \<open>SS_PORT\<close> is the register the argument
  \<open>SS_PORTx\<close> points to.  The status register belongs to the hardware: \<open>polls\<close> lists,
  for the successive reads of \<open>SPSR\<close> still to come, whether the read shows \<open>SPIF\<close> set
  and which byte \<open>SPDR\<close> holds once it does (the byte shifted in by the peer).  \<open>bus\<close>
  records the stores made so far.
\<close>

record machine =
  SS_PORT :: u8
  SPDR :: u8
  polls :: "(bool \<times> u8) list"
  bus :: "bus_event list"

text \<open>A call either returns, or never leaves a wait loop because the status register
  never shows \<open>SPIF\<close>; in both cases the registers and the stores made are known.\<close>

datatype 'a outcome = Done 'a machine | Hang machine

fun machine_of :: "'a outcome \<Rightarrow> machine" where
  "machine_of (Done x m) = m"
| "machine_of (Hang m) = m"

fun returned :: "'a outcome \<Rightarrow> bool" where
  "returned (Done x m) = True"
| "returned (Hang m) = False"

text \<open>Sequencing of two statements: the second runs only if the first returns.\<close>

fun seq :: "'a outcome \<Rightarrow> ('a \<Rightarrow> machine \<Rightarrow> 'b outcome) \<Rightarrow> 'b outcome" where
  "seq (Done x m) f = f x m"
| "seq (Hang m) f = Hang m"

text \<open>\<^verbatim>\<open>while(!(SPSR & (1 << SPIF))) ;\<close>  The loop reads the status register until a
  read shows the flag; when no read ever does, it does not end.\<close>

fun wait_SPIF :: "(bool \<times> u8) list \<Rightarrow> (u8 \<times> (bool \<times> u8) list) option" where
  "wait_SPIF [] = None"
| "wait_SPIF ((spif, rx) # ps) = (if spif then Some (rx, ps) else wait_SPIF ps)"

text \<open>\<^verbatim>\<open>void SPI_masterPutUint8_t(uint8_t data)\<close>\<close>

definition SPI_masterPutUint8_t :: "u8 \<Rightarrow> machine \<Rightarrow> unit outcome" where
  "SPI_masterPutUint8_t data m =
     (let m1 = m\<lparr>SPDR := data, bus := bus m @ [Data data]\<rparr> in
      case wait_SPIF (polls m1) of
        None \<Rightarrow> Hang (m1\<lparr>polls := []\<rparr>)
      | Some (rx, ps) \<Rightarrow> Done () (m1\<lparr>SPDR := rx, polls := ps\<rparr>))"

text \<open>\<^verbatim>\<open>uint8_t SPI_masterReadUint8_t()\<close>: writes the dummy byte \<open>0xFF\<close>, waits, and
  returns \<open>SPDR\<close>.\<close>

definition SPI_masterReadUint8_t :: "machine \<Rightarrow> u8 outcome" where
  "SPI_masterReadUint8_t m =
     (let m1 = m\<lparr>SPDR := 0xFF, bus := bus m @ [Data 0xFF]\<rparr> in
      case wait_SPIF (polls m1) of
        None \<Rightarrow> Hang (m1\<lparr>polls := []\<rparr>)
      | Some (rx, ps) \<Rightarrow> Done rx (m1\<lparr>SPDR := rx, polls := ps\<rparr>))"

text \<open>The store \<^verbatim>\<open>*SS_PORTx = v\<close>.\<close>

definition write_port :: "u8 \<Rightarrow> machine \<Rightarrow> machine" where
  "write_port v m = m\<lparr>SS_PORT := v, bus := bus m @ [Port v]\<rparr>"

text \<open>
  The four guarded functions open with the same three lines and close with the same one:
  \<^verbatim>\<open>uint8_t pullHigh = (*SS_PORTx) | (1 << SS_PORTxn);\<close>
  \<^verbatim>\<open>uint8_t pullLow = (*SS_PORTx) & ~(1 << SS_PORTxn);\<close>
  \<^verbatim>\<open>*SS_PORTx = (SSmode == DEFAULT_SS_CONTROL) * pullLow + (SSmode == INVERTED_SS_CONTROL) * pullHigh;\<close>
  and
  \<^verbatim>\<open>*SS_PORTx = (SSmode == DEFAULT_SS_CONTROL) * pullHigh + (SSmode == INVERTED_SS_CONTROL) * pullLow;\<close>
  A comparison is the integer 0 or 1.  The shift is computed in \<open>int\<close> and the result
  cut to eight bits on assignment, so for a bit number from 8 on the low byte of the mask
  is 0, as it is for the 8-bit shift used here.
\<close>

definition truth :: "bool \<Rightarrow> u8" where
  "truth c = (if c then 1 else 0)"

definition pullHigh :: "u8 \<Rightarrow> u8 \<Rightarrow> u8" where
  "pullHigh port SS_PORTxn = port OR push_bit (unat SS_PORTxn) 1"

definition pullLow :: "u8 \<Rightarrow> u8 \<Rightarrow> u8" where
  "pullLow port SS_PORTxn = port AND NOT (push_bit (unat SS_PORTxn) 1)"

definition start_level :: "u8 \<Rightarrow> u8 \<Rightarrow> u8 \<Rightarrow> u8" where
  "start_level port SS_PORTxn SSmode =
     truth (SSmode = DEFAULT_SS_CONTROL) * pullLow port SS_PORTxn +
     truth (SSmode = INVERTED_SS_CONTROL) * pullHigh port SS_PORTxn"

definition end_level :: "u8 \<Rightarrow> u8 \<Rightarrow> u8 \<Rightarrow> u8" where
  "end_level port SS_PORTxn SSmode =
     truth (SSmode = DEFAULT_SS_CONTROL) * pullHigh port SS_PORTxn +
     truth (SSmode = INVERTED_SS_CONTROL) * pullLow port SS_PORTxn"

text \<open>\<^verbatim>\<open>void SPI_transmitUint8_t(volatile uint8_t *SS_PORTx, uint8_t SS_PORTxn, uint8_t SSmode, uint8_t data)\<close>\<close>

definition SPI_transmitUint8_t :: "u8 \<Rightarrow> u8 \<Rightarrow> u8 \<Rightarrow> machine \<Rightarrow> unit outcome" where
  "SPI_transmitUint8_t SS_PORTxn SSmode data m =
     (let release = end_level (SS_PORT m) SS_PORTxn SSmode;
          m1 = write_port (start_level (SS_PORT m) SS_PORTxn SSmode) m in
      seq (SPI_masterPutUint8_t data m1) (\<lambda>_ m2.
      seq (SPI_masterPutUint8_t DATA_END_CHAR m2) (\<lambda>_ m3.
      Done () (write_port release m3))))"

text \<open>
  \<^verbatim>\<open>void SPI_transmitString(..., char *data)\<close>.  The loop
  \<^verbatim>\<open>while(*data) { SPI_masterPutUint8_t(*data); data++; }\<close> over the characters of the
  string; the end of the list is the terminating NUL, and a zero byte inside the list ends
  the loop as well.
\<close>

fun put_string :: "u8 list \<Rightarrow> machine \<Rightarrow> unit outcome" where
  "put_string [] m = Done () m"
| "put_string (c # cs) m =
     (if c = 0 then Done () m
      else seq (SPI_masterPutUint8_t c m) (\<lambda>_. put_string cs))"

definition SPI_transmitString :: "u8 \<Rightarrow> u8 \<Rightarrow> u8 list \<Rightarrow> machine \<Rightarrow> unit outcome" where
  "SPI_transmitString SS_PORTxn SSmode data m =
     (let release = end_level (SS_PORT m) SS_PORTxn SSmode;
          m1 = write_port (start_level (SS_PORT m) SS_PORTxn SSmode) m in
      seq (put_string data m1) (\<lambda>_ m2.
      seq (SPI_masterPutUint8_t DATA_END_CHAR m2) (\<lambda>_ m3.
      Done () (write_port release m3))))"

text \<open>\<^verbatim>\<open>uint8_t SPI_receiveUint8_t(volatile uint8_t *SS_PORTx, uint8_t SS_PORTxn, uint8_t SSmode)\<close>\<close>

definition SPI_receiveUint8_t :: "u8 \<Rightarrow> u8 \<Rightarrow> machine \<Rightarrow> u8 outcome" where
  "SPI_receiveUint8_t SS_PORTxn SSmode m =
     (let release = end_level (SS_PORT m) SS_PORTxn SSmode;
          m1 = write_port (start_level (SS_PORT m) SS_PORTxn SSmode) m in
      seq (SPI_masterReadUint8_t m1) (\<lambda>data m2.
      Done data (write_port release m2)))"

text \<open>
  \<^verbatim>\<open>for(int i = numBytes - 1; i >= 0; i--) SPI_masterPutUint8_t((hexNumber >> (i * 8)) & mask);\<close>
  with \<open>mask = 0xFF\<close>.  The first argument is \<open>i + 1\<close>, the number of bytes still to
  send.  The source asks for at most eight bytes; beyond that the shift count reaches the
  width of the type.
\<close>

fun put_hex :: "nat \<Rightarrow> u64 \<Rightarrow> machine \<Rightarrow> unit outcome" where
  "put_hex 0 hexNumber m = Done () m"
| "put_hex (Suc i) hexNumber m =
     seq (SPI_masterPutUint8_t (ucast (drop_bit (i * 8) hexNumber AND 0xFF)) m)
         (\<lambda>_. put_hex i hexNumber)"

definition SPI_transmitHex :: "u8 \<Rightarrow> u8 \<Rightarrow> u8 \<Rightarrow> u64 \<Rightarrow> machine \<Rightarrow> unit outcome" where
  "SPI_transmitHex SS_PORTxn SSmode numBytes hexNumber m =
     (let release = end_level (SS_PORT m) SS_PORTxn SSmode;
          m1 = write_port (start_level (SS_PORT m) SS_PORTxn SSmode) m in
      seq (put_hex (unat numBytes) hexNumber m1) (\<lambda>_ m2.
      seq (SPI_masterPutUint8_t DATA_END_CHAR m2) (\<lambda>_ m3.
      Done () (write_port release m3))))"

subsection \<open>hexArrayToUint64\_t\<close>

text \<open>\<^verbatim>\<open>for(size_t i = 0; i < size; i++) combinedHex = (combinedHex << 8) | array[i];\<close>
  from index \<open>i\<close> on, with the accumulator.\<close>

function hex_from :: "nat \<Rightarrow> u8 list \<Rightarrow> nat \<Rightarrow> u64 \<Rightarrow> fault + u64" where
  "hex_from i array n combinedHex =
     (if i < n then
        (if i < length array
         then hex_from (Suc i) array n (push_bit 8 combinedHex OR ucast (array ! i))
         else Inl (OutOfBounds i))
      else Inr combinedHex)"
  by pat_completeness auto
termination
  by (relation "measure (\<lambda>(i, array, n, c). n - i)") auto

definition hexArrayToUint64_t :: "u8 list \<Rightarrow> nat \<Rightarrow> fault + u64" where
  "hexArrayToUint64_t array n = hex_from 0 array n 0"

text \<open>The big-endian value as the specification writes it:
  \<open>b0 << 8(n-1) | b1 << 8(n-2) | ... | bn-1\<close>.\<close>

fun big_endian :: "u8 list \<Rightarrow> u64" where
  "big_endian [] = 0"
| "big_endian (b # bs) = push_bit (8 * length bs) (ucast b) OR big_endian bs"

text \<open>The bytes stored to the data register, in order.\<close>

fun data_bytes :: "bus_event list \<Rightarrow> u8 list" where
  "data_bytes [] = []"
| "data_bytes (Data b # es) = b # data_bytes es"
| "data_bytes (Port v # es) = data_bytes es"

subsection \<open>SPI\_strcmp\<close>

text \<open>
  Modelled from the spec: \<open>strcmp\<close>, the string comparison of the C library, which the
  repository calls and does not contain.  The specification has it compare the two byte
  sequences position by position up to the terminating zero byte, the first pair of
  differing bytes deciding the sign of the result, 0 being returned when the terminators
  are reached together.  The result is taken to be the difference of that pair of bytes,
  read as unsigned.  The arguments are the bytes from each pointer on; running off one
  of them before a zero byte or a difference is found is a read outside the object.
\<close>

fun strcmp_at :: "nat \<Rightarrow> u8 list \<Rightarrow> u8 list \<Rightarrow> fault + int" where
  "strcmp_at i (a # as) (b # bs) =
     (if a \<noteq> b then Inr (int (unat a) - int (unat b))
      else if a = 0 then Inr 0
      else strcmp_at (Suc i) as bs)"
| "strcmp_at i as bs = Inl (OutOfBounds i)"

definition strcmp :: "u8 list \<Rightarrow> u8 list \<Rightarrow> fault + int" where
  "strcmp s1 s2 = strcmp_at 0 s1 s2"

text \<open>\<^verbatim>\<open>int SPI_strcmp(uint8_t *str1, char *str2) { return strcmp((char *)(str1), str2); }\<close>\<close>

definition SPI_strcmp :: "u8 list \<Rightarrow> u8 list \<Rightarrow> fault + int" where
  "SPI_strcmp str1 str2 = strcmp str1 str2"

text \<open>The bytes of a C string up to its terminator.\<close>

definition c_string :: "u8 list \<Rightarrow> u8 list" where
  "c_string s = takeWhile (\<lambda>c. c \<noteq> 0) s"

subsection \<open>Notions for stating the transmit properties\<close>

text \<open>How many of the status reads still to come show \<open>SPIF\<close>: the number of
  transfers the hardware will complete.\<close>

definition ready :: "(bool \<times> u8) list \<Rightarrow> nat" where
  "ready ps = length (filter fst ps)"

text \<open>The low \<open>k\<close> bytes of a number, most significant first: the arguments the loop of
  \<open>SPI_transmitHex\<close> passes to \<open>SPI_masterPutUint8_t\<close>.\<close>

fun hex_digits :: "nat \<Rightarrow> u64 \<Rightarrow> u8 list" where
  "hex_digits 0 hexNumber = []"
| "hex_digits (Suc i) hexNumber =
     ucast (drop_bit (i * 8) hexNumber AND 0xFF) # hex_digits i hexNumber"

text \<open>The four functions with slave-select control as one family, the value a call
  returns being dropped, and the bytes each of them sets out to transfer.\<close>

datatype guarded_op =
  TransmitUint8 u8 | TransmitString "u8 list" | ReceiveUint8 | TransmitHex u8 u64

fun forget :: "'a outcome \<Rightarrow> unit outcome" where
  "forget (Done x m) = Done () m"
| "forget (Hang m) = Hang m"

fun guarded_call :: "guarded_op \<Rightarrow> u8 \<Rightarrow> u8 \<Rightarrow> machine \<Rightarrow> unit outcome" where
  "guarded_call (TransmitUint8 data) SS_PORTxn SSmode m =
     SPI_transmitUint8_t SS_PORTxn SSmode data m"
| "guarded_call (TransmitString data) SS_PORTxn SSmode m =
     SPI_transmitString SS_PORTxn SSmode data m"
| "guarded_call ReceiveUint8 SS_PORTxn SSmode m =
     forget (SPI_receiveUint8_t SS_PORTxn SSmode m)"
| "guarded_call (TransmitHex numBytes hexNumber) SS_PORTxn SSmode m =
     SPI_transmitHex SS_PORTxn SSmode numBytes hexNumber m"

fun transfers_of :: "guarded_op \<Rightarrow> u8 list" where
  "transfers_of (TransmitUint8 data) = [data, DATA_END_CHAR]"
| "transfers_of (TransmitString data) = c_string data @ [DATA_END_CHAR]"
| "transfers_of ReceiveUint8 = [0xFF]"
| "transfers_of (TransmitHex numBytes hexNumber) =
     hex_digits (unat numBytes) hexNumber @ [DATA_END_CHAR]"

text \<open>
  The arguments the source is written for: a bit number of the 8-bit port and, for a
  number, at most eight bytes.  Outside that range C gives no meaning to the shifts
  \<open>1 << SS_PORTxn\<close> (from 16 on) and \<open>hexNumber >> (i * 8)\<close> (from 64 on), and the
  properties below are stated for calls inside it.
\<close>

fun well_formed :: "guarded_op \<Rightarrow> u8 \<Rightarrow> bool" where
  "well_formed (TransmitHex numBytes hexNumber) SS_PORTxn =
     (unat SS_PORTxn < 8 \<and> unat numBytes \<le> 8)"
| "well_formed op SS_PORTxn = (unat SS_PORTxn < 8)"

text \<open>Transferring a list of bytes one after the other.\<close>

fun put_all :: "u8 list \<Rightarrow> machine \<Rightarrow> unit outcome" where
  "put_all [] m = Done () m"
| "put_all (b # bs) m = seq (SPI_masterPutUint8_t b m) (\<lambda>_. put_all bs)"

section \<open>SPI\_readAll statement by statement, with the receive interrupt\<close>

text \<open>
  Where the foreground is inside \<open>SPI_readAll\<close>: before the test of \<open>dataReceived\<close>;
  before the call \<open>flushBuffer(SPI_data, receivedBytes)\<close>, which reads the count once
  and passes it by value; inside the loop of \<open>flushBuffer\<close> with that size and the
  index; inside the copy loop; inside the loop that zeroes \<open>SPI_buffer\<close>, whose bound
  is read from \<open>receivedBytes\<close> at every test; before each of the two final
  assignments; and after the return, with the value returned.
\<close>

datatype pc =
    At_if
  | At_call
  | In_flush nat nat
  | In_copy nat
  | In_zero nat
  | At_clear_flag
  | At_clear_count
  | Returned bool

text \<open>One statement (or one loop test with the loop body) of \<open>SPI_readAll\<close>.\<close>

fun readAll_step :: "pc \<Rightarrow> spi_state \<Rightarrow> fault + (pc \<times> spi_state)" where
  "readAll_step At_if s =
     Inr (if dataReceived s then (At_call, s) else (Returned False, s))"
| "readAll_step At_call s = Inr (In_flush (unat (receivedBytes s)) 0, s)"
| "readAll_step (In_flush n i) s =
     (if i < n then
        (if i < length (SPI_data s)
         then Inr (In_flush n (Suc i), s\<lparr>SPI_data := (SPI_data s)[i := 0]\<rparr>)
         else Inl (OutOfBounds i))
      else Inr (In_copy 0, s))"
| "readAll_step (In_copy i) s =
     (if i < length (SPI_buffer s) then
        (if SPI_buffer s ! i \<noteq> DATA_END_CHAR then
           (if i < length (SPI_data s)
            then Inr (In_copy (Suc i), s\<lparr>SPI_data := (SPI_data s)[i := SPI_buffer s ! i]\<rparr>)
            else Inl (OutOfBounds i))
         else Inr (In_zero 0, s))
      else Inl (OutOfBounds i))"
| "readAll_step (In_zero i) s =
     (if i < unat (receivedBytes s) then
        (if i < length (SPI_buffer s)
         then Inr (In_zero (Suc i), s\<lparr>SPI_buffer := (SPI_buffer s)[i := 0]\<rparr>)
         else Inl (OutOfBounds i))
      else Inr (At_clear_flag, s))"
| "readAll_step At_clear_flag s = Inr (At_clear_count, s\<lparr>dataReceived := False\<rparr>)"
| "readAll_step At_clear_count s = Inr (Returned True, s\<lparr>receivedBytes := 0\<rparr>)"
| "readAll_step (Returned r) s = Inr (Returned r, s)"

text \<open>
  The slave while the foreground calls \<open>SPI_readAll\<close>: the place in the function, the
  globals, and whether the receive interrupt is enabled (\<open>SPI_init\<close> in slave mode sets
  \<open>SPIE\<close>; the application enables interrupts globally).  No statement of
  \<open>SPI_readAll\<close> writes the interrupt enable.
\<close>

record slave =
  at :: pc
  interrupts :: bool
  vars :: spi_state

definition foreground :: "slave \<Rightarrow> fault + slave" where
  "foreground c =
     (case readAll_step (at c) (vars c) of
        Inl e \<Rightarrow> Inl e
      | Inr (p, s) \<Rightarrow> Inr (c\<lparr>at := p, vars := s\<rparr>))"

text \<open>A byte arrives.  With the interrupt enabled the handler runs to completion at
  once, wherever the foreground is; with the interrupt disabled nothing runs.\<close>

definition interrupt :: "u8 \<Rightarrow> slave \<Rightarrow> fault + slave" where
  "interrupt b c =
     (if interrupts c then
        (case ISR_SPI_STC b (vars c) of
           Inl e \<Rightarrow> Inl e
         | Inr s \<Rightarrow> Inr (c\<lparr>vars := s\<rparr>))
      else Inr c)"

datatype tick = Step | Interrupt u8

fun exec :: "tick list \<Rightarrow> slave \<Rightarrow> fault + slave" where
  "exec [] c = Inr c"
| "exec (Step # ts) c = (case foreground c of Inl e \<Rightarrow> Inl e | Inr c' \<Rightarrow> exec ts c')"
| "exec (Interrupt b # ts) c = (case interrupt b c of Inl e \<Rightarrow> Inl e | Inr c' \<Rightarrow> exec ts c')"

section \<open>Properties of the receive path\<close>

subsection \<open>The loops in closed form\<close>

declare flush_from.simps [simp del] copy_from.simps [simp del]

lemma flush_from_closed:
  "i \<le> n \<Longrightarrow> n \<le> length a \<Longrightarrow>
   flush_from i a n = Inr (take i a @ replicate (n - i) 0 @ drop n a)"
proof (induction i a n rule: flush_from.induct)
  case (1 i array n)
  show ?case
  proof (cases "i < n")
    case True
    then have il: "i < length array" using 1 by simp
    have "flush_from i array n = flush_from (Suc i) (array[i := 0]) n"
      using True il by (subst flush_from.simps) simp
    also have "\<dots> = Inr (take (Suc i) (array[i := 0]) @ replicate (n - Suc i) 0 @ drop n (array[i := 0]))"
      using 1 True il by simp
    also have "take (Suc i) (array[i := 0]) = take i array @ [0]"
      using il by (simp add: take_Suc_conv_app_nth)
    also have "drop n (array[i := 0]) = drop n array"
      using True by simp
    finally show ?thesis using True
      by (simp add: replicate_app_Cons_same Suc_diff_Suc flip: replicate_Suc)
  next
    case False
    then show ?thesis using 1 by (subst flush_from.simps) simp
  qed
qed

lemma copy_from_closed:
  "buf = pre @ mid @ DATA_END_CHAR # post \<Longrightarrow> length pre = i \<Longrightarrow>
   DATA_END_CHAR \<notin> set mid \<Longrightarrow> i + length mid \<le> length dat \<Longrightarrow>
   copy_from i buf dat = Inr (take i dat @ mid @ drop (i + length mid) dat)"
proof (induction mid arbitrary: i pre dat)
  case Nil
  then show ?case by (subst copy_from.simps) (simp add: nth_append)
next
  case (Cons m mid)
  have bi: "buf ! i = m" using Cons.prems by (simp add: nth_append)
  have il: "i < length buf" "i < length dat" using Cons.prems by simp_all
  have "copy_from i buf dat = copy_from (Suc i) buf (dat[i := m])"
    using Cons.prems bi il by (subst copy_from.simps) auto
  also have "\<dots> = Inr (take (Suc i) (dat[i := m]) @ mid @ drop (Suc i + length mid) (dat[i := m]))"
    using Cons.prems by (intro Cons.IH [where pre = "pre @ [m]"]) simp_all
  also have "take (Suc i) (dat[i := m]) = take i dat @ [m]"
    using il by (simp add: take_Suc_conv_app_nth)
  finally show ?case by simp
qed

subsection \<open>Receiving one message\<close>

lemma run_append:
  "run (xs @ ys) s = (case run xs s of Inl e \<Rightarrow> Inl e | Inr s' \<Rightarrow> run ys s')"
proof (induction xs arbitrary: s)
  case Nil
  then show ?case by simp
next
  case (Cons x xs)
  then show ?case by (cases x) (auto split: sum.splits)
qed

lemma ISR_in_range:
  "unat (dataIndex s) < length (SPI_buffer s) \<Longrightarrow>
   ISR_SPI_STC b s =
     Inr (if b = DATA_END_CHAR
          then s\<lparr>SPI_buffer := (SPI_buffer s)[unat (dataIndex s) := b],
                 dataReceived := True, dataIndex := 0\<rparr>
          else s\<lparr>SPI_buffer := (SPI_buffer s)[unat (dataIndex s) := b],
                 dataIndex := dataIndex s + 1, receivedBytes := receivedBytes s + 1\<rparr>)"
  by (simp add: ISR_SPI_STC_def Let_def)

lemma unat_u8_Suc: "unat (d :: u8) + 1 < 256 \<Longrightarrow> unat (d + 1) = Suc (unat d)"
  by (simp add: unat_word_ariths)

lemma receive_payload:
  "DATA_END_CHAR \<notin> set S \<Longrightarrow>
   unat (dataIndex s) + length S \<le> length (SPI_buffer s) \<Longrightarrow>
   unat (dataIndex s) + length S < 256 \<Longrightarrow>
   receive S s =
     Inr (s\<lparr>SPI_buffer := take (unat (dataIndex s)) (SPI_buffer s) @ S @
                            drop (unat (dataIndex s) + length S) (SPI_buffer s),
            dataIndex := dataIndex s + of_nat (length S),
            receivedBytes := receivedBytes s + of_nat (length S)\<rparr>)"
proof (induction S arbitrary: s)
  case Nil
  then show ?case by (simp add: receive_def)
next
  case (Cons b S)
  let ?i = "unat (dataIndex s)"
  let ?s1 = "s\<lparr>SPI_buffer := (SPI_buffer s)[?i := b],
                 dataIndex := dataIndex s + 1, receivedBytes := receivedBytes s + 1\<rparr>"
  have il: "?i < length (SPI_buffer s)" using Cons.prems by simp
  have b: "b \<noteq> DATA_END_CHAR" using Cons.prems by auto
  have step: "ISR_SPI_STC b s = Inr ?s1"
    using il b by (simp add: ISR_in_range)
  have i1: "unat (dataIndex ?s1) = Suc ?i"
    using Cons.prems by (simp add: unat_u8_Suc)
  have "receive S ?s1 =
     Inr (?s1\<lparr>SPI_buffer := take (unat (dataIndex ?s1)) (SPI_buffer ?s1) @ S @
                            drop (unat (dataIndex ?s1) + length S) (SPI_buffer ?s1),
            dataIndex := dataIndex ?s1 + of_nat (length S),
            receivedBytes := receivedBytes ?s1 + of_nat (length S)\<rparr>)"
    using Cons.prems i1 by (intro Cons.IH) auto
  moreover have "take (Suc ?i) ((SPI_buffer s)[?i := b]) = take ?i (SPI_buffer s) @ [b]"
    using il by (simp add: take_Suc_conv_app_nth)
  ultimately show ?case
    using step i1 by (simp add: receive_def add.assoc add.commute)
qed

lemma receive_message:
  assumes S: "DATA_END_CHAR \<notin> set S" and len: "length S < cap" and cap: "cap \<le> 256"
  shows "receive (S @ [DATA_END_CHAR]) (init_state cap) =
     Inr \<lparr>SPI_data = replicate cap 0,
          SPI_buffer = S @ DATA_END_CHAR # replicate (cap - Suc (length S)) 0,
          dataIndex = 0, dataReceived = True, receivedBytes = of_nat (length S)\<rparr>"
proof -
  let ?s0 = "init_state cap"
  let ?s1 = "\<lparr>SPI_data = replicate cap 0, SPI_buffer = S @ replicate (cap - length S) 0,
          dataIndex = of_nat (length S), dataReceived = False,
          receivedBytes = of_nat (length S)\<rparr>"
  have "receive S ?s0 = Inr ?s1"
    using S len cap by (subst receive_payload) (simp_all add: init_state_def)
  moreover have i: "unat (of_nat (length S) :: u8) = length S"
    using len cap by (simp add: unat_of_nat)
  moreover have "(S @ replicate (cap - length S) 0)[length S := DATA_END_CHAR] =
      S @ DATA_END_CHAR # replicate (cap - Suc (length S)) 0"
    using len by (cases "cap - length S") (simp_all add: list_update_append)
  ultimately show ?thesis
    using len by (simp add: receive_def run_append ISR_in_range)
qed

lemma readAll_message:
  assumes S: "DATA_END_CHAR \<notin> set S" and len: "length S < cap" and cap: "cap \<le> 256"
  shows "SPI_readAll \<lparr>SPI_data = replicate cap 0,
          SPI_buffer = S @ DATA_END_CHAR # replicate (cap - Suc (length S)) 0,
          dataIndex = 0, dataReceived = True, receivedBytes = of_nat (length S)\<rparr> =
     Inr (True, \<lparr>SPI_data = S @ replicate (cap - length S) 0,
          SPI_buffer = replicate (length S) 0 @ DATA_END_CHAR # replicate (cap - Suc (length S)) 0,
          dataIndex = 0, dataReceived = False, receivedBytes = 0\<rparr>)"
proof -
  have n: "unat (of_nat (length S) :: u16) = length S"
    using len cap by (simp add: unat_of_nat)
  have f1: "flushBuffer (replicate cap 0) (length S) = Inr (replicate cap 0)"
    using len by (simp add: flushBuffer_def flush_from_closed flip: replicate_add)
  have c: "copy_from 0 (S @ DATA_END_CHAR # replicate (cap - Suc (length S)) 0) (replicate cap 0)
      = Inr (S @ replicate (cap - length S) 0)"
    using S len by (subst copy_from_closed [where pre = "[]" and mid = S]) simp_all
  have f2: "flush_from 0 (S @ DATA_END_CHAR # replicate (cap - Suc (length S)) 0) (length S)
      = Inr (replicate (length S) 0 @ DATA_END_CHAR # replicate (cap - Suc (length S)) 0)"
    by (simp add: flush_from_closed)
  show ?thesis
    by (simp add: SPI_readAll_def n f1 c f2)
qed

text \<open>
  Claim C1.  Let \<open>S\<close> be a byte sequence without the terminator and shorter than the
  capacity \<open>DATA_LENGTH\<close>.  Starting from the initial all-zero globals, one handler
  invocation per byte of \<open>S\<close> followed by one for the terminator succeeds; the next
  call of \<open>SPI_readAll\<close> returns true and leaves \<open>SPI_data\<close> holding \<open>S\<close>, padded
  with zero bytes up to the capacity; a second call right after it returns false and
  changes nothing.
\<close>

theorem framed_message_delivered_once:
  assumes "DATA_END_CHAR \<notin> set S" and "length S < DATA_LENGTH"
  shows "\<exists>s1 s2. receive (S @ [DATA_END_CHAR]) (init_state DATA_LENGTH) = Inr s1 \<and>
           SPI_readAll s1 = Inr (True, s2) \<and>
           SPI_data s2 = S @ replicate (DATA_LENGTH - length S) 0 \<and>
           SPI_readAll s2 = Inr (False, s2)"
proof -
  let ?s1 = "\<lparr>SPI_data = replicate DATA_LENGTH 0,
          SPI_buffer = S @ DATA_END_CHAR # replicate (DATA_LENGTH - Suc (length S)) 0,
          dataIndex = 0, dataReceived = True, receivedBytes = of_nat (length S)\<rparr>"
  let ?s2 = "\<lparr>SPI_data = S @ replicate (DATA_LENGTH - length S) 0,
          SPI_buffer = replicate (length S) 0 @ DATA_END_CHAR #
                       replicate (DATA_LENGTH - Suc (length S)) 0,
          dataIndex = 0, dataReceived = False, receivedBytes = 0\<rparr>"
  have cap: "DATA_LENGTH \<le> 256" by (simp add: DATA_LENGTH_def)
  have "receive (S @ [DATA_END_CHAR]) (init_state DATA_LENGTH) = Inr ?s1"
    by (rule receive_message [OF assms cap])
  moreover have "SPI_readAll ?s1 = Inr (True, ?s2)"
    by (rule readAll_message [OF assms cap])
  moreover have "SPI_data ?s2 = S @ replicate (DATA_LENGTH - length S) 0"
    by simp
  moreover have "SPI_readAll ?s2 = Inr (False, ?s2)"
    by (simp add: SPI_readAll_def)
  ultimately show ?thesis by blast
qed

theorem framed_message_delivered_once_witness:
  "\<exists>s1 s2. receive ([0x54, 0x4F, 0x47, 0x47, 0x4C, 0x45] @ [DATA_END_CHAR]) (init_state DATA_LENGTH) = Inr s1 \<and>
           SPI_readAll s1 = Inr (True, s2) \<and>
           SPI_data s2 = [0x54, 0x4F, 0x47, 0x47, 0x4C, 0x45] @ replicate 45 0 \<and>
           SPI_readAll s2 = Inr (False, s2)"
  using framed_message_delivered_once [of "[0x54, 0x4F, 0x47, 0x47, 0x4C, 0x45]"]
  by (simp add: DATA_END_CHAR_def DATA_LENGTH_def)

subsection \<open>The handler's transition\<close>

text \<open>
  Claim C4, as the code has it.  While the cursor \<open>dataIndex\<close> is inside the working
  buffer, one invocation of the handler first stores the received byte at
  \<open>SPI_buffer[dataIndex]\<close>, the terminator included.  If the byte is the terminator it
  then raises \<open>dataReceived\<close> and resets the cursor to 0, the byte count staying as it
  is; otherwise it increments the cursor and the byte count \<open>receivedBytes\<close>.
\<close>

theorem framer_transition:
  "unat (dataIndex s) < length (SPI_buffer s) \<Longrightarrow>
   ISR_SPI_STC b s =
     Inr (if b = DATA_END_CHAR
          then s\<lparr>SPI_buffer := (SPI_buffer s)[unat (dataIndex s) := DATA_END_CHAR],
                 dataReceived := True, dataIndex := 0\<rparr>
          else s\<lparr>SPI_buffer := (SPI_buffer s)[unat (dataIndex s) := b],
                 dataIndex := dataIndex s + 1, receivedBytes := receivedBytes s + 1\<rparr>)"
  by (simp add: ISR_SPI_STC_def Let_def)

theorem framer_transition_witness:
  "unat (dataIndex (init_state DATA_LENGTH)) < length (SPI_buffer (init_state DATA_LENGTH)) \<and>
   ISR_SPI_STC 0x41 (init_state DATA_LENGTH) =
     Inr ((init_state DATA_LENGTH)\<lparr>SPI_buffer := (replicate DATA_LENGTH 0)[0 := 0x41],
                                    dataIndex := 1, receivedBytes := 1\<rparr>)"
  using framer_transition [of "init_state DATA_LENGTH" "0x41"]
  by (simp add: init_state_def DATA_LENGTH_def DATA_END_CHAR_def)

text \<open>
  The transition worded by the specification leaves the buffer alone on a terminator.  The
  handler does not: from the initial state a terminator lands in cell 0.
\<close>

theorem framer_stores_terminator:
  "ISR_SPI_STC DATA_END_CHAR (init_state DATA_LENGTH) =
     Inr ((init_state DATA_LENGTH)\<lparr>SPI_buffer := (replicate DATA_LENGTH 0)[0 := DATA_END_CHAR],
                                    dataReceived := True\<rparr>) \<and>
   framer_step_spec DATA_END_CHAR (init_state DATA_LENGTH) =
     (init_state DATA_LENGTH)\<lparr>dataReceived := True\<rparr> \<and>
   (replicate DATA_LENGTH 0)[0 := DATA_END_CHAR] ! 0 = DATA_END_CHAR \<and>
   SPI_buffer (init_state DATA_LENGTH) ! 0 = 0 \<and>
   ISR_SPI_STC DATA_END_CHAR (init_state DATA_LENGTH) \<noteq>
     Inr (framer_step_spec DATA_END_CHAR (init_state DATA_LENGTH))"
proof -
  have neq: "(replicate DATA_LENGTH 0)[0 := DATA_END_CHAR] \<noteq> replicate DATA_LENGTH (0 :: u8)"
  proof
    assume "(replicate DATA_LENGTH 0)[0 := DATA_END_CHAR] = replicate DATA_LENGTH (0 :: u8)"
    then have "(replicate DATA_LENGTH 0)[0 := DATA_END_CHAR] ! 0 = replicate DATA_LENGTH (0 :: u8) ! 0"
      by simp
    then show False by (simp add: DATA_LENGTH_def DATA_END_CHAR_def)
  qed
  have step: "ISR_SPI_STC DATA_END_CHAR (init_state DATA_LENGTH) =
     Inr ((init_state DATA_LENGTH)\<lparr>SPI_buffer := (replicate DATA_LENGTH 0)[0 := DATA_END_CHAR],
                                    dataReceived := True\<rparr>)"
    by (simp add: ISR_SPI_STC_def init_state_def DATA_LENGTH_def Let_def)
  have spec: "framer_step_spec DATA_END_CHAR (init_state DATA_LENGTH) =
     (init_state DATA_LENGTH)\<lparr>dataReceived := True\<rparr>"
    by (simp add: framer_step_spec_def init_state_def)
  have "ISR_SPI_STC DATA_END_CHAR (init_state DATA_LENGTH) \<noteq>
     Inr (framer_step_spec DATA_END_CHAR (init_state DATA_LENGTH))"
    unfolding step spec using neq by (simp add: init_state_def)
  then show ?thesis
    using step spec by (simp add: init_state_def DATA_LENGTH_def)
qed

subsection \<open>Writes stay inside the working buffer while messages fit\<close>

lemma payload_runs_nonempty: "payload_runs bs \<noteq> []"
  by (induction bs) (auto split: list.splits)

lemma receive_Cons:
  "receive (b # bs) s = (case ISR_SPI_STC b s of Inl e \<Rightarrow> Inl e | Inr s' \<Rightarrow> receive bs s')"
  unfolding receive_def by simp

lemma receive_in_bounds_gen:
  "length (SPI_buffer s) = cap \<Longrightarrow> cap \<le> 256 \<Longrightarrow> payload_runs bs = r # rs \<Longrightarrow>
   unat (dataIndex s) + length r < cap \<Longrightarrow> list_all (\<lambda>m. length m < cap) rs \<Longrightarrow>
   \<exists>s'. receive bs s = Inr s' \<and> length (SPI_buffer s') = cap"
proof (induction bs arbitrary: s r rs)
  case Nil
  then show ?case by (simp add: receive_def)
next
  case (Cons b bs)
  obtain r' rs' where runs: "payload_runs bs = r' # rs'"
    using payload_runs_nonempty [of bs] by (cases "payload_runs bs") auto
  have il: "unat (dataIndex s) < length (SPI_buffer s)"
    using Cons.prems by simp
  show ?case
  proof (cases "b = DATA_END_CHAR")
    case True
    let ?s1 = "s\<lparr>SPI_buffer := (SPI_buffer s)[unat (dataIndex s) := b],
                 dataReceived := True, dataIndex := 0\<rparr>"
    have step: "ISR_SPI_STC b s = Inr ?s1"
      using il True by (simp add: ISR_in_range)
    have "rs = r' # rs'" using Cons.prems(3) True runs by simp
    then have "\<exists>s'. receive bs ?s1 = Inr s' \<and> length (SPI_buffer s') = cap"
      using Cons.prems by (intro Cons.IH [OF _ _ runs]) simp_all
    then show ?thesis by (simp add: receive_Cons step)
  next
    case False
    let ?s1 = "s\<lparr>SPI_buffer := (SPI_buffer s)[unat (dataIndex s) := b],
                 dataIndex := dataIndex s + 1, receivedBytes := receivedBytes s + 1\<rparr>"
    have step: "ISR_SPI_STC b s = Inr ?s1"
      using il False by (simp add: ISR_in_range)
    have r: "r = b # r'" "rs = rs'" using Cons.prems(3) False runs by simp_all
    have "unat (dataIndex s + 1) = Suc (unat (dataIndex s))"
      using Cons.prems r by (intro unat_u8_Suc) simp
    then have "\<exists>s'. receive bs ?s1 = Inr s' \<and> length (SPI_buffer s') = cap"
      using Cons.prems r by (intro Cons.IH [OF _ _ runs]) simp_all
    then show ?thesis by (simp add: receive_Cons step)
  qed
qed

text \<open>
  Claim C3, as the code has it.  If every run of non-terminator bytes in the received
  stream is shorter than \<open>DATA_LENGTH\<close>, then, from the initial state, every store of
  the handler hits an index below \<open>DATA_LENGTH\<close>: the whole stream is taken without a
  fault and the working buffer keeps its length.
\<close>

theorem framer_in_bounds_when_messages_fit:
  assumes "list_all (\<lambda>m. length m < DATA_LENGTH) (payload_runs bs)"
  shows "\<exists>s. receive bs (init_state DATA_LENGTH) = Inr s \<and>
             length (SPI_buffer s) = DATA_LENGTH"
proof -
  obtain r rs where runs: "payload_runs bs = r # rs"
    using payload_runs_nonempty [of bs] by (cases "payload_runs bs") auto
  show ?thesis
    using assms runs
    by (intro receive_in_bounds_gen [OF _ _ runs])
       (simp_all add: init_state_def DATA_LENGTH_def)
qed

theorem framer_in_bounds_when_messages_fit_witness:
  "list_all (\<lambda>m. length m < DATA_LENGTH) (payload_runs [0x41, 0x42, 0x0D, 0x43]) \<and>
   (\<exists>s. receive [0x41, 0x42, 0x0D, 0x43] (init_state DATA_LENGTH) = Inr s \<and>
             length (SPI_buffer s) = DATA_LENGTH)"
  using framer_in_bounds_when_messages_fit [of "[0x41, 0x42, 0x0D, 0x43]"]
  by (simp add: DATA_LENGTH_def DATA_END_CHAR_def)

text \<open>
  Without that restriction the claim fails.  With a capacity of 5, the sixth of ten
  non-terminator bytes is stored at index 5; with the configured capacity of 51, the
  fifty-second byte is stored at index 51.
\<close>

theorem framer_overrun:
  "receive (replicate 10 0x41) (init_state 5) = Inl (OutOfBounds 5) \<and>
   receive (replicate 52 0x41) (init_state DATA_LENGTH) = Inl (OutOfBounds 51)"
  by code_simp

subsection \<open>The byte count\<close>

lemma ISR_counts:
  "ISR_SPI_STC b s = Inr s' \<Longrightarrow>
   (if b = DATA_END_CHAR then dataReceived s' \<and> receivedBytes s' = receivedBytes s
    else dataReceived s' = dataReceived s \<and> receivedBytes s' = receivedBytes s + 1)"
  by (auto simp: ISR_SPI_STC_def Let_def split: if_splits)

lemma SPI_readAll_counts:
  "SPI_readAll s = Inr (r, s') \<Longrightarrow>
   r = dataReceived s \<and>
   (if r then \<not> dataReceived s' \<and> receivedBytes s' = 0 else s' = s)"
  by (auto simp: SPI_readAll_def split: if_splits sum.splits)

lemma track_run:
  "run es s = Inr s' \<Longrightarrow> receivedBytes s = of_nat n \<Longrightarrow>
   receivedBytes s' = of_nat (snd (track (dataReceived s, n) es)) \<and>
   dataReceived s' = fst (track (dataReceived s, n) es)"
proof (induction es arbitrary: s n)
  case Nil
  then show ?case by simp
next
  case (Cons e es)
  show ?case
  proof (cases e)
    case (Rx b)
    then obtain s1 where step: "ISR_SPI_STC b s = Inr s1" and rest: "run es s1 = Inr s'"
      using Cons.prems(1) by (auto split: sum.splits)
    show ?thesis
    proof (cases "b = DATA_END_CHAR")
      case True
      then have "dataReceived s1" "receivedBytes s1 = of_nat n"
        using ISR_counts [OF step] Cons.prems(2) by simp_all
      then show ?thesis
        using Cons.IH [OF rest, of n] Rx True by simp
    next
      case False
      then have "dataReceived s1 = dataReceived s" "receivedBytes s1 = of_nat (Suc n)"
        using ISR_counts [OF step] Cons.prems(2) by simp_all
      then show ?thesis
        using Cons.IH [OF rest, of "Suc n"] Rx False by simp
    qed
  next
    case ReadAll
    then obtain r s1 where call: "SPI_readAll s = Inr (r, s1)" and rest: "run es s1 = Inr s'"
      using Cons.prems(1) by (auto split: sum.splits)
    show ?thesis
    proof (cases "dataReceived s")
      case True
      then have "\<not> dataReceived s1" "receivedBytes s1 = of_nat 0"
        using SPI_readAll_counts [OF call] by simp_all
      then show ?thesis
        using Cons.IH [OF rest, of 0] ReadAll True by simp
    next
      case False
      then have "s1 = s"
        using SPI_readAll_counts [OF call] by simp
      then show ?thesis
        using Cons.IH [OF rest, of n] Cons.prems(2) ReadAll False by simp
    qed
  qed
qed

text \<open>
  Claim C8, as the code has it.  In every state reached from the initial one by handler
  invocations and calls of \<open>SPI_readAll\<close> in any order, \<open>receivedBytes\<close> is the number
  of non-terminator bytes received since the last swap (as a 16-bit value),
  \<open>dataReceived\<close> tells whether a terminator has arrived since the last swap, and a call
  of \<open>SPI_readAll\<close> that swaps leaves \<open>receivedBytes\<close> at 0.
\<close>

theorem byte_count_since_last_swap:
  assumes "run es (init_state DATA_LENGTH) = Inr s"
  shows "receivedBytes s = of_nat (snd (track (False, 0) es)) \<and>
         dataReceived s = fst (track (False, 0) es) \<and>
         (case SPI_readAll s of Inr (True, s') \<Rightarrow> receivedBytes s' = 0 | _ \<Rightarrow> True)"
proof -
  have "receivedBytes s = of_nat (snd (track (dataReceived (init_state DATA_LENGTH), 0) es)) \<and>
        dataReceived s = fst (track (dataReceived (init_state DATA_LENGTH), 0) es)"
    by (rule track_run [OF assms]) (simp add: init_state_def)
  moreover have "case SPI_readAll s of Inr (True, s') \<Rightarrow> receivedBytes s' = 0 | _ \<Rightarrow> True"
    using SPI_readAll_counts [of s] by (auto split: sum.splits bool.splits)
  ultimately show ?thesis by (simp add: init_state_def)
qed

lemma run_two_messages:
  "run [Rx 0x41, Rx 0x42, Rx 0x0D, Rx 0x43] (init_state DATA_LENGTH) =
     Inr ((init_state DATA_LENGTH)\<lparr>SPI_buffer := [0x43, 0x42, 0x0D] @ replicate 48 0,
           dataIndex := 1, dataReceived := True, receivedBytes := 3\<rparr>)"
  by code_simp

lemma readAll_two_messages:
  "SPI_readAll ((init_state DATA_LENGTH)\<lparr>SPI_buffer := [0x43, 0x42, 0x0D] @ replicate 48 0,
           dataIndex := 1, dataReceived := True, receivedBytes := 3\<rparr>) =
     Inr (True, (init_state DATA_LENGTH)\<lparr>SPI_data := [0x43, 0x42] @ replicate 49 0,
           SPI_buffer := [0, 0, 0] @ replicate 48 0, dataIndex := 1\<rparr>)"
  by code_simp

theorem byte_count_since_last_swap_witness:
  "run [Rx 0x41, Rx 0x42, Rx 0x0D, Rx 0x43] (init_state DATA_LENGTH) =
     Inr ((init_state DATA_LENGTH)\<lparr>SPI_buffer := [0x43, 0x42, 0x0D] @ replicate 48 0,
           dataIndex := 1, dataReceived := True, receivedBytes := 3\<rparr>) \<and>
   (3 :: u16) = of_nat (snd (track (False, 0) [Rx 0x41, Rx 0x42, Rx 0x0D, Rx 0x43])) \<and>
   fst (track (False, 0) [Rx 0x41, Rx 0x42, Rx 0x0D, Rx 0x43]) \<and>
   SPI_readAll ((init_state DATA_LENGTH)\<lparr>SPI_buffer := [0x43, 0x42, 0x0D] @ replicate 48 0,
           dataIndex := 1, dataReceived := True, receivedBytes := 3\<rparr>) =
     Inr (True, (init_state DATA_LENGTH)\<lparr>SPI_data := [0x43, 0x42] @ replicate 49 0,
           SPI_buffer := [0, 0, 0] @ replicate 48 0, dataIndex := 1\<rparr>) \<and>
   receivedBytes ((init_state DATA_LENGTH)\<lparr>SPI_data := [0x43, 0x42] @ replicate 49 0,
           SPI_buffer := [0, 0, 0] @ replicate 48 0, dataIndex := 1\<rparr>) = 0"
  using byte_count_since_last_swap [OF run_two_messages] run_two_messages readAll_two_messages
  by (simp add: init_state_def)

text \<open>
  The count is not the length of one message: after \<open>AB\<close>, a terminator and \<open>C\<close>,
  with no call of \<open>SPI_readAll\<close> in between, it is 3, while the completed message has
  two bytes and the current one has one.
\<close>

theorem byte_count_accumulates:
  "map_sum id receivedBytes (run [Rx 0x41, Rx 0x42, Rx 0x0D, Rx 0x43] (init_state DATA_LENGTH)) = Inr 3 \<and>
   payload_runs (rx_bytes [Rx 0x41, Rx 0x42, Rx 0x0D, Rx 0x43]) = [[0x41, 0x42], [0x43]] \<and>
   current_message (rx_bytes [Rx 0x41, Rx 0x42, Rx 0x0D, Rx 0x43]) = [0x43]"
  by code_simp

subsection \<open>The swap and the previous message\<close>

text \<open>
  Claim C2 at a concrete history.  After the message \<open>ABCDEF\<close> has been received and
  swapped out and the message \<open>XY\<close> has been received, the call of \<open>SPI_readAll\<close>
  returns true, but \<open>flushBuffer\<close> clears two cells of \<open>SPI_data\<close> only: the stable
  buffer then reads \<open>XYCDEF\<close>.
\<close>

theorem stale_bytes_survive_swap:
  "run (map Rx [0x41, 0x42, 0x43, 0x44, 0x45, 0x46, 0x0D] @ [ReadAll] @ map Rx [0x58, 0x59, 0x0D])
       (init_state DATA_LENGTH) =
     Inr \<lparr>SPI_data = [0x41, 0x42, 0x43, 0x44, 0x45, 0x46] @ replicate 45 0,
          SPI_buffer = [0x58, 0x59, 0x0D, 0, 0, 0, 0x0D] @ replicate 44 0,
          dataIndex = 0, dataReceived = True, receivedBytes = 2\<rparr> \<and>
   SPI_readAll
         \<lparr>SPI_data = [0x41, 0x42, 0x43, 0x44, 0x45, 0x46] @ replicate 45 0,
          SPI_buffer = [0x58, 0x59, 0x0D, 0, 0, 0, 0x0D] @ replicate 44 0,
          dataIndex = 0, dataReceived = True, receivedBytes = 2\<rparr> =
     Inr (True,
         \<lparr>SPI_data = [0x58, 0x59, 0x43, 0x44, 0x45, 0x46] @ replicate 45 0,
          SPI_buffer = [0, 0, 0x0D, 0, 0, 0, 0x0D] @ replicate 44 0,
          dataIndex = 0, dataReceived = False, receivedBytes = 0\<rparr>)"
  by code_simp

section \<open>Properties of the transmit path\<close>

subsection \<open>The stores a guarded call makes\<close>

lemma wait_SPIF_None: "wait_SPIF ps = None \<longleftrightarrow> ready ps = 0"
  by (induction ps rule: wait_SPIF.induct) (auto simp: ready_def)

lemma wait_SPIF_Some: "wait_SPIF ps = Some (rx, ps') \<Longrightarrow> ready ps = Suc (ready ps')"
  by (induction ps rule: wait_SPIF.induct) (auto simp: ready_def split: if_splits)

lemma put_cases:
  obtains (hang) "ready (polls m) = 0" and
      "SPI_masterPutUint8_t b m = Hang (m\<lparr>SPDR := b, bus := bus m @ [Data b], polls := []\<rparr>)"
  | (returns) rx ps where "ready (polls m) = Suc (ready ps)" and
      "SPI_masterPutUint8_t b m = Done () (m\<lparr>SPDR := rx, bus := bus m @ [Data b], polls := ps\<rparr>)"
proof (cases "wait_SPIF (polls m)")
  case None
  then show ?thesis
    using hang by (simp add: SPI_masterPutUint8_t_def Let_def flip: wait_SPIF_None)
next
  case (Some p)
  then obtain rx ps where "wait_SPIF (polls m) = Some (rx, ps)" by (cases p) auto
  then show ?thesis
    using returns [of ps rx] by (simp add: SPI_masterPutUint8_t_def Let_def wait_SPIF_Some)
qed

lemma put_all_trace:
  "bus (machine_of (put_all bs m)) = bus m @ map Data (take (Suc (ready (polls m))) bs) \<and>
   SS_PORT (machine_of (put_all bs m)) = SS_PORT m \<and>
   returned (put_all bs m) = (length bs \<le> ready (polls m))"
proof (induction bs arbitrary: m)
  case Nil
  then show ?case by simp
next
  case (Cons b bs)
  show ?case
  proof (cases rule: put_cases [where m = m and b = b])
    case hang
    then show ?thesis by simp
  next
    case (returns rx ps)
    then show ?thesis
      using Cons.IH [of "m\<lparr>SPDR := rx, bus := bus m @ [Data b], polls := ps\<rparr>"] by simp
  qed
qed

lemma seq_assoc: "seq (seq r f) g = seq r (\<lambda>x m. seq (f x m) g)"
  by (cases r) simp_all

lemma put_string_eq: "put_string data = put_all (c_string data)"
proof (induction data)
  case Nil
  show ?case by (rule ext) (simp add: c_string_def)
next
  case (Cons c cs)
  show ?case by (rule ext) (simp add: c_string_def Cons [unfolded c_string_def])
qed

lemma put_hex_eq: "put_hex k h = put_all (hex_digits k h)"
proof (induction k)
  case 0
  show ?case by (rule ext) simp
next
  case (Suc k)
  show ?case by (rule ext) (simp add: Suc)
qed

lemma put_all_snoc:
  "seq (put_all xs m) (\<lambda>_ m2. seq (SPI_masterPutUint8_t y m2) g) = seq (put_all (xs @ [y]) m) g"
proof (induction xs arbitrary: m)
  case Nil
  show ?case by (simp add: seq_assoc)
next
  case (Cons x xs)
  show ?case
    by (cases rule: put_cases [where m = m and b = x]) (simp_all add: Cons)
qed

lemma read_as_put:
  "forget (seq (SPI_masterReadUint8_t m) (\<lambda>x m2. Done x (g m2))) =
   seq (put_all [0xFF] m) (\<lambda>_ m2. Done () (g m2))"
  by (simp add: SPI_masterReadUint8_t_def SPI_masterPutUint8_t_def Let_def split: option.splits)

lemma guarded_call_put_all:
  "guarded_call op n mode m =
     seq (put_all (transfers_of op) (write_port (start_level (SS_PORT m) n mode) m))
         (\<lambda>_ m3. Done () (write_port (end_level (SS_PORT m) n mode) m3))"
proof (cases op)
  case (TransmitUint8 d)
  then show ?thesis
    by (simp add: SPI_transmitUint8_t_def Let_def seq_assoc)
next
  case (TransmitString s)
  then show ?thesis
    by (simp add: SPI_transmitString_def Let_def put_string_eq put_all_snoc)
next
  case ReceiveUint8
  then show ?thesis
    by (simp only: guarded_call.simps SPI_receiveUint8_t_def Let_def read_as_put transfers_of.simps)
next
  case (TransmitHex k h)
  then show ?thesis
    by (simp add: SPI_transmitHex_def Let_def put_hex_eq put_all_snoc)
qed

lemma guarded_call_trace:
  fixes op n mode m
  defines "r \<equiv> guarded_call op n mode m"
    and "k \<equiv> ready (polls m)"
    and "a \<equiv> start_level (SS_PORT m) n mode"
    and "d \<equiv> end_level (SS_PORT m) n mode"
  shows "bus (machine_of r) =
           bus m @ Port a # map Data (take (Suc k) (transfers_of op)) @
           (if length (transfers_of op) \<le> k then [Port d] else [])"
    and "SS_PORT (machine_of r) = (if length (transfers_of op) \<le> k then d else a)"
    and "returned r = (length (transfers_of op) \<le> k)"
proof -
  let ?m1 = "write_port a m"
  let ?p = "put_all (transfers_of op) ?m1"
  have r: "r = seq ?p (\<lambda>_ m3. Done () (write_port d m3))"
    unfolding r_def a_def d_def by (rule guarded_call_put_all)
  have p: "bus (machine_of ?p) = bus m @ Port a # map Data (take (Suc k) (transfers_of op))"
    "SS_PORT (machine_of ?p) = a" "returned ?p = (length (transfers_of op) \<le> k)"
    using put_all_trace [of "transfers_of op" ?m1] by (simp_all add: write_port_def k_def)
  show "bus (machine_of r) =
           bus m @ Port a # map Data (take (Suc k) (transfers_of op)) @
           (if length (transfers_of op) \<le> k then [Port d] else [])"
    and "SS_PORT (machine_of r) = (if length (transfers_of op) \<le> k then d else a)"
    and "returned r = (length (transfers_of op) \<le> k)"
    using p unfolding r by (cases ?p; simp add: write_port_def)+
qed

lemma levels_default:
  "start_level port n DEFAULT_SS_CONTROL = pullLow port n"
  "end_level port n DEFAULT_SS_CONTROL = pullHigh port n"
  by (simp_all add: start_level_def end_level_def truth_def DEFAULT_SS_CONTROL_def
      INVERTED_SS_CONTROL_def)

lemma levels_inverted:
  "start_level port n INVERTED_SS_CONTROL = pullHigh port n"
  "end_level port n INVERTED_SS_CONTROL = pullLow port n"
  by (simp_all add: start_level_def end_level_def truth_def DEFAULT_SS_CONTROL_def
      INVERTED_SS_CONTROL_def)

lemma levels_other:
  "SSmode \<noteq> DEFAULT_SS_CONTROL \<Longrightarrow> SSmode \<noteq> INVERTED_SS_CONTROL \<Longrightarrow>
   start_level port n SSmode = 0 \<and> end_level port n SSmode = 0"
  by (simp add: start_level_def end_level_def truth_def)

lemma bit_pullLow: "bit (pullLow port n) k \<longleftrightarrow> bit port k \<and> k \<noteq> unat n"
  by (auto simp: pullLow_def bit_simps dest: bit_imp_le_length)

lemma bit_pullHigh: "bit (pullHigh port n) k \<longleftrightarrow> bit port k \<or> (k = unat n \<and> k < 8)"
  by (auto simp: pullHigh_def bit_simps dest: bit_imp_le_length)

lemma modes_distinct: "DEFAULT_SS_CONTROL \<noteq> INVERTED_SS_CONTROL"
  by (simp add: DEFAULT_SS_CONTROL_def INVERTED_SS_CONTROL_def)

lemma well_formed_bit: "well_formed op n \<Longrightarrow> unat n < 8"
  by (cases op) simp_all

text \<open>
  Claim C7.  Let \<open>SSmode\<close> be \<open>DEFAULT_SS_CONTROL\<close> or \<open>INVERTED_SS_CONTROL\<close> and let
  the call be well formed (the bit number addresses one of the eight bits of the port, a
  number is sent with at most eight bytes).  Whatever the hardware does,
  each of \<open>SPI_transmitUint8_t\<close>, \<open>SPI_transmitString\<close>, \<open>SPI_receiveUint8_t\<close> and
  \<open>SPI_transmitHex\<close> first stores to the port a value whose slave-select bit is low in
  default mode and high in inverted mode, then starts its byte transfers and nothing else,
  and, exactly when the hardware completes all of them, returns after one more store to
  the port, whose slave-select bit has the opposite level.
\<close>

theorem select_line_brackets_transfers:
  assumes "SSmode = DEFAULT_SS_CONTROL \<or> SSmode = INVERTED_SS_CONTROL"
    and "well_formed op SS_PORTxn"
  shows "bus (machine_of (guarded_call op SS_PORTxn SSmode m)) =
           bus m @ Port (start_level (SS_PORT m) SS_PORTxn SSmode) #
           map Data (take (Suc (ready (polls m))) (transfers_of op)) @
           (if length (transfers_of op) \<le> ready (polls m)
            then [Port (end_level (SS_PORT m) SS_PORTxn SSmode)] else []) \<and>
         returned (guarded_call op SS_PORTxn SSmode m) =
           (length (transfers_of op) \<le> ready (polls m)) \<and>
         bit (start_level (SS_PORT m) SS_PORTxn SSmode) (unat SS_PORTxn) =
           (SSmode = INVERTED_SS_CONTROL) \<and>
         bit (end_level (SS_PORT m) SS_PORTxn SSmode) (unat SS_PORTxn) =
           (SSmode = DEFAULT_SS_CONTROL)"
proof -
  have "bit (start_level (SS_PORT m) SS_PORTxn SSmode) (unat SS_PORTxn) =
           (SSmode = INVERTED_SS_CONTROL) \<and>
        bit (end_level (SS_PORT m) SS_PORTxn SSmode) (unat SS_PORTxn) =
           (SSmode = DEFAULT_SS_CONTROL)"
    using assms(1) well_formed_bit [OF assms(2)] modes_distinct
    by (auto simp: levels_default levels_inverted bit_pullLow bit_pullHigh)
  then show ?thesis
    using guarded_call_trace(1,3) [of op SS_PORTxn SSmode m] by simp
qed

lemma transmitString_example:
  "guarded_call (TransmitString [0x41, 0x42, 0x00]) 4 DEFAULT_SS_CONTROL
      \<lparr>SS_PORT = 0xFF, SPDR = 0, polls = [(False, 0), (True, 0xA1), (True, 0xA2), (True, 0xA3)], bus = []\<rparr> =
    Done () \<lparr>SS_PORT = 0xFF, SPDR = 0xA3, polls = [],
             bus = [Port 0xEF, Data 0x41, Data 0x42, Data 0x0D, Port 0xFF]\<rparr>"
  by code_simp

theorem select_line_brackets_transfers_witness:
  "(DEFAULT_SS_CONTROL = DEFAULT_SS_CONTROL \<or> DEFAULT_SS_CONTROL = INVERTED_SS_CONTROL) \<and>
   well_formed (TransmitString [0x41, 0x42, 0x00]) 4 \<and>
   guarded_call (TransmitString [0x41, 0x42, 0x00]) 4 DEFAULT_SS_CONTROL
      \<lparr>SS_PORT = 0xFF, SPDR = 0, polls = [(False, 0), (True, 0xA1), (True, 0xA2), (True, 0xA3)], bus = []\<rparr> =
    Done () \<lparr>SS_PORT = 0xFF, SPDR = 0xA3, polls = [],
             bus = [Port 0xEF, Data 0x41, Data 0x42, Data 0x0D, Port 0xFF]\<rparr> \<and>
   start_level 0xFF 4 DEFAULT_SS_CONTROL = 0xEF \<and> \<not> bit (0xEF :: u8) 4 \<and>
   end_level 0xFF 4 DEFAULT_SS_CONTROL = 0xFF \<and> bit (0xFF :: u8) 4"
proof -
  let ?m = "\<lparr>SS_PORT = 0xFF, SPDR = 0, polls = [(False, 0), (True, 0xA1), (True, 0xA2), (True, 0xA3)], bus = []\<rparr>"
  have s: "start_level 0xFF 4 DEFAULT_SS_CONTROL = 0xEF" "end_level 0xFF 4 DEFAULT_SS_CONTROL = 0xFF"
    by code_simp+
  have "well_formed (TransmitString [0x41, 0x42, 0x00]) 4" by simp
  from select_line_brackets_transfers [OF _ this, where SSmode = DEFAULT_SS_CONTROL
      and m = ?m]
  have "\<not> bit (0xEF :: u8) 4 \<and> bit (0xFF :: u8) 4"
    by (simp add: s DEFAULT_SS_CONTROL_def INVERTED_SS_CONTROL_def)
  then show ?thesis
    using s transmitString_example by simp
qed

text \<open>
  Claim C10.  The first store of a well-formed guarded call is the start level and, when
  the call returns, its last store is the end level, which the port then holds.  For \<open>SSmode\<close>
  equal to \<open>DEFAULT_SS_CONTROL\<close> or \<open>INVERTED_SS_CONTROL\<close> both levels agree with the
  port's previous value on every bit other than the slave-select bit; for every other
  \<open>SSmode\<close> both levels are \<open>0x00\<close>.
\<close>

theorem other_port_bits:
  assumes "well_formed op SS_PORTxn"
  shows
  "hd (drop (length (bus m)) (bus (machine_of (guarded_call op SS_PORTxn SSmode m)))) =
     Port (start_level (SS_PORT m) SS_PORTxn SSmode) \<and>
   (returned (guarded_call op SS_PORTxn SSmode m) \<longrightarrow>
     last (bus (machine_of (guarded_call op SS_PORTxn SSmode m))) =
       Port (end_level (SS_PORT m) SS_PORTxn SSmode) \<and>
     SS_PORT (machine_of (guarded_call op SS_PORTxn SSmode m)) =
       end_level (SS_PORT m) SS_PORTxn SSmode) \<and>
   (SSmode = DEFAULT_SS_CONTROL \<or> SSmode = INVERTED_SS_CONTROL \<longrightarrow>
     (\<forall>k. k \<noteq> unat SS_PORTxn \<longrightarrow>
        bit (start_level (SS_PORT m) SS_PORTxn SSmode) k = bit (SS_PORT m) k \<and>
        bit (end_level (SS_PORT m) SS_PORTxn SSmode) k = bit (SS_PORT m) k)) \<and>
   (SSmode \<noteq> DEFAULT_SS_CONTROL \<and> SSmode \<noteq> INVERTED_SS_CONTROL \<longrightarrow>
     start_level (SS_PORT m) SS_PORTxn SSmode = 0 \<and>
     end_level (SS_PORT m) SS_PORTxn SSmode = 0)"
proof -
  let ?r = "guarded_call op SS_PORTxn SSmode m"
  note t = guarded_call_trace [of op SS_PORTxn SSmode m]
  have first: "hd (drop (length (bus m)) (bus (machine_of ?r))) =
     Port (start_level (SS_PORT m) SS_PORTxn SSmode)"
    unfolding t(1) by simp
  have last: "last (bus (machine_of ?r)) = Port (end_level (SS_PORT m) SS_PORTxn SSmode) \<and>
     SS_PORT (machine_of ?r) = end_level (SS_PORT m) SS_PORTxn SSmode"
    if "returned ?r"
    using that t(3) unfolding t(1) t(2) by simp
  have keep: "bit (start_level (SS_PORT m) SS_PORTxn SSmode) k = bit (SS_PORT m) k \<and>
        bit (end_level (SS_PORT m) SS_PORTxn SSmode) k = bit (SS_PORT m) k"
    if "SSmode = DEFAULT_SS_CONTROL \<or> SSmode = INVERTED_SS_CONTROL" "k \<noteq> unat SS_PORTxn" for k
    using that by (auto simp: levels_default levels_inverted bit_pullLow bit_pullHigh)
  show ?thesis
    using first last keep levels_other [of SSmode "SS_PORT m" SS_PORTxn] by blast
qed

lemma transmitUint8_other_mode:
  "guarded_call (TransmitUint8 0x33) 4 7
      \<lparr>SS_PORT = 0xFF, SPDR = 0, polls = [(True, 0xA1), (True, 0xA2)], bus = []\<rparr> =
    Done () \<lparr>SS_PORT = 0, SPDR = 0xA2, polls = [],
             bus = [Port 0, Data 0x33, Data 0x0D, Port 0]\<rparr>"
  by code_simp

lemma transmitUint8_inverted:
  "guarded_call (TransmitUint8 0x33) 4 INVERTED_SS_CONTROL
      \<lparr>SS_PORT = 0x0F, SPDR = 0, polls = [(True, 0xA1), (True, 0xA2)], bus = []\<rparr> =
    Done () \<lparr>SS_PORT = 0x0F, SPDR = 0xA2, polls = [],
             bus = [Port 0x1F, Data 0x33, Data 0x0D, Port 0x0F]\<rparr>"
  by code_simp

theorem other_port_bits_witness:
  "well_formed (TransmitUint8 0x33) 4 \<and>
   guarded_call (TransmitUint8 0x33) 4 INVERTED_SS_CONTROL
      \<lparr>SS_PORT = 0x0F, SPDR = 0, polls = [(True, 0xA1), (True, 0xA2)], bus = []\<rparr> =
    Done () \<lparr>SS_PORT = 0x0F, SPDR = 0xA2, polls = [],
             bus = [Port 0x1F, Data 0x33, Data 0x0D, Port 0x0F]\<rparr> \<and>
   start_level 0x0F 4 INVERTED_SS_CONTROL = 0x1F \<and> end_level 0x0F 4 INVERTED_SS_CONTROL = 0x0F \<and>
   bit (0x1F :: u8) 3 = bit (0x0F :: u8) 3 \<and> bit (0x1F :: u8) 5 = bit (0x0F :: u8) 5 \<and>
   (7 :: u8) \<noteq> DEFAULT_SS_CONTROL \<and> (7 :: u8) \<noteq> INVERTED_SS_CONTROL \<and>
   guarded_call (TransmitUint8 0x33) 4 7
      \<lparr>SS_PORT = 0xFF, SPDR = 0, polls = [(True, 0xA1), (True, 0xA2)], bus = []\<rparr> =
    Done () \<lparr>SS_PORT = 0, SPDR = 0xA2, polls = [],
             bus = [Port 0, Data 0x33, Data 0x0D, Port 0]\<rparr> \<and>
   start_level 0xFF 4 7 = 0 \<and> end_level 0xFF 4 7 = 0"
proof -
  let ?m1 = "\<lparr>SS_PORT = 0x0F, SPDR = 0, polls = [(True, 0xA1), (True, 0xA2)], bus = []\<rparr>"
  let ?m2 = "\<lparr>SS_PORT = 0xFF, SPDR = 0, polls = [(True, 0xA1), (True, 0xA2)], bus = []\<rparr>"
  have s: "start_level 0x0F 4 INVERTED_SS_CONTROL = 0x1F" "end_level 0x0F 4 INVERTED_SS_CONTROL = 0x0F"
    by code_simp+
  have ne: "(7 :: u8) \<noteq> DEFAULT_SS_CONTROL \<and> (7 :: u8) \<noteq> INVERTED_SS_CONTROL"
    by (simp add: DEFAULT_SS_CONTROL_def INVERTED_SS_CONTROL_def)
  have wf: "well_formed (TransmitUint8 0x33) 4" by simp
  from other_port_bits [OF wf, where m = ?m1 and SSmode = INVERTED_SS_CONTROL]
  have "bit (0x1F :: u8) 3 = bit (0x0F :: u8) 3 \<and> bit (0x1F :: u8) 5 = bit (0x0F :: u8) 5"
    unfolding s by simp
  moreover from other_port_bits [OF wf, where m = ?m2 and SSmode = 7] ne
  have "start_level 0xFF 4 7 = 0 \<and> end_level 0xFF 4 7 = 0"
    by simp
  ultimately show ?thesis
    using s ne wf transmitUint8_other_mode transmitUint8_inverted by simp
qed

subsection \<open>Packing and unpacking numbers\<close>

declare hex_from.simps [simp del]

lemma hex_from_closed:
  "i \<le> n \<Longrightarrow> n \<le> length array \<Longrightarrow>
   hex_from i array n acc =
     Inr (push_bit (8 * (n - i)) acc OR big_endian (take (n - i) (drop i array)))"
proof (induction i array n acc rule: hex_from.induct)
  case (1 i array n acc)
  show ?case
  proof (cases "i < n")
    case True
    then have il: "i < length array" using 1 by simp
    have ni: "n - i = Suc (n - Suc i)"
      using True by simp
    have split: "take (n - i) (drop i array) = array ! i # take (n - Suc i) (drop (Suc i) array)"
      unfolding ni using il by (simp flip: Cons_nth_drop_Suc)
    have len: "length (take (n - Suc i) (drop (Suc i) array)) = n - Suc i"
      using 1 True by simp
    have sh: "(n - i) * 8 = 8 + (n - Suc i) * 8"
      using True by simp
    have "hex_from i array n acc = hex_from (Suc i) array n (push_bit 8 acc OR ucast (array ! i))"
      using True il by (subst hex_from.simps) simp
    also have "\<dots> = Inr (push_bit (8 * (n - Suc i)) (push_bit 8 acc OR ucast (array ! i)) OR
                        big_endian (take (n - Suc i) (drop (Suc i) array)))"
      using 1 True il by simp
    finally show ?thesis
      unfolding split big_endian.simps len
      by (simp add: push_bit_or push_bit_push_bit sh ac_simps)
  next
    case False
    then show ?thesis using 1 by (subst hex_from.simps) simp
  qed
qed

lemma hexArray_big_endian:
  "n \<le> length array \<Longrightarrow> hexArrayToUint64_t array n = Inr (big_endian (take n array))"
  by (simp add: hexArrayToUint64_t_def hex_from_closed)

lemma length_hex_digits [simp]: "length (hex_digits k h) = k"
  by (induction k) simp_all

lemma big_endian_hex_digits: "big_endian (hex_digits k h) = take_bit (8 * k) h"
proof (induction k)
  case 0
  then show ?case by simp
next
  case (Suc k)
  have m: "(0xFF :: u64) = mask 8"
    by (simp add: mask_eq_exp_minus_1)
  have "push_bit (8 * k) (ucast (ucast (drop_bit (k * 8) h AND 0xFF) :: u8) :: u64) OR take_bit (8 * k) h
      = take_bit (8 * Suc k) h"
    unfolding m by (rule bit_eqI) (auto simp: bit_simps ac_simps)
  then show ?case by (simp add: Suc)
qed

lemma hex_roundtrip:
  "k \<le> 8 \<Longrightarrow> unat h < 2 ^ (8 * k) \<Longrightarrow> hexArrayToUint64_t (hex_digits k h) k = Inr h"
proof -
  assume "k \<le> 8" and "unat h < 2 ^ (8 * k)"
  then have "unat (take_bit (8 * k) h) = unat h"
    by (simp add: unsigned_take_bit_eq take_bit_nat_eq_self)
  then have "take_bit (8 * k) h = h"
    by (simp add: word_unat_eq_iff)
  then show ?thesis
    by (simp add: hexArray_big_endian big_endian_hex_digits)
qed

lemma data_bytes_append: "data_bytes (xs @ ys) = data_bytes xs @ data_bytes ys"
  by (induction xs rule: data_bytes.induct) simp_all

lemma data_bytes_map_Data: "data_bytes (map Data bs) = bs"
  by (induction bs) simp_all

lemma transmitHex_completes:
  assumes "unat numBytes < ready (polls m)"
  shows "\<exists>m'. SPI_transmitHex n mode numBytes h m = Done () m' \<and>
     bus m' = bus m @ Port (start_level (SS_PORT m) n mode) #
              map Data (hex_digits (unat numBytes) h @ [DATA_END_CHAR]) @
              [Port (end_level (SS_PORT m) n mode)]"
proof -
  let ?op = "TransmitHex numBytes h"
  let ?r = "guarded_call ?op n mode m"
  have len: "length (transfers_of ?op) \<le> ready (polls m)"
    using assms by simp
  have "returned ?r"
    using guarded_call_trace(3) [of ?op n mode m] len by simp
  then obtain m' where r: "?r = Done () m'"
    by (cases ?r) simp_all
  have "bus m' = bus m @ Port (start_level (SS_PORT m) n mode) #
              map Data (hex_digits (unat numBytes) h @ [DATA_END_CHAR]) @
              [Port (end_level (SS_PORT m) n mode)]"
    using guarded_call_trace(1) [of ?op n mode m] len unfolding r by simp
  then show ?thesis using r by simp
qed

text \<open>
  Claim C5.  \<open>hexArrayToUint64_t\<close> on the first \<open>n\<close> bytes of an array returns their
  big-endian value \<open>b0 << 8(n-1) | ... | bn-1\<close>.  For a byte count of at most 8 and a
  value below \<open>2 ^ (8 * numBytes)\<close>, a bit number of the port, and hardware that
  completes the transfers,
  \<open>SPI_transmitHex\<close> returns after storing to the data register \<open>numBytes\<close> payload
  bytes followed by the terminator, and \<open>hexArrayToUint64_t\<close> on that payload gives the
  value back.  With byte count 2 and value \<open>0x1234\<close> the stores between the two port
  stores are \<open>0x12\<close>, \<open>0x34\<close>, \<open>0x0D\<close>.
\<close>

theorem pack_unpack_roundtrip:
  "(n \<le> length array \<longrightarrow> hexArrayToUint64_t array n = Inr (big_endian (take n array))) \<and>
   (well_formed (TransmitHex numBytes hexNumber) SS_PORTxn \<and>
    unat hexNumber < 2 ^ (8 * unat numBytes) \<and>
    unat numBytes < ready (polls m) \<longrightarrow>
      (\<exists>m' payload.
         SPI_transmitHex SS_PORTxn SSmode numBytes hexNumber m = Done () m' \<and>
         data_bytes (bus m') = data_bytes (bus m) @ payload @ [DATA_END_CHAR] \<and>
         length payload = unat numBytes \<and>
         hexArrayToUint64_t payload (unat numBytes) = Inr hexNumber)) \<and>
   (unat SS_PORTxn < 8 \<and> 2 < ready (polls m) \<longrightarrow>
      (\<exists>m'. SPI_transmitHex SS_PORTxn SSmode 2 0x1234 m = Done () m' \<and>
         bus m' = bus m @ [Port (start_level (SS_PORT m) SS_PORTxn SSmode),
                           Data 0x12, Data 0x34, Data 0x0D,
                           Port (end_level (SS_PORT m) SS_PORTxn SSmode)]))"
proof (intro conjI impI)
  assume "n \<le> length array"
  then show "hexArrayToUint64_t array n = Inr (big_endian (take n array))"
    by (rule hexArray_big_endian)
next
  assume a: "well_formed (TransmitHex numBytes hexNumber) SS_PORTxn \<and>
    unat hexNumber < 2 ^ (8 * unat numBytes) \<and>
    unat numBytes < ready (polls m)"
  then obtain m' where m': "SPI_transmitHex SS_PORTxn SSmode numBytes hexNumber m = Done () m'"
    "bus m' = bus m @ Port (start_level (SS_PORT m) SS_PORTxn SSmode) #
              map Data (hex_digits (unat numBytes) hexNumber @ [DATA_END_CHAR]) @
              [Port (end_level (SS_PORT m) SS_PORTxn SSmode)]"
    using transmitHex_completes [of numBytes m SS_PORTxn SSmode hexNumber] by blast
  let ?payload = "hex_digits (unat numBytes) hexNumber"
  have "data_bytes (bus m') = data_bytes (bus m) @ ?payload @ [DATA_END_CHAR]"
    unfolding m'(2) by (simp add: data_bytes_append data_bytes_map_Data)
  moreover have "hexArrayToUint64_t ?payload (unat numBytes) = Inr hexNumber"
    using a by (simp add: hex_roundtrip)
  ultimately show "\<exists>m' payload.
         SPI_transmitHex SS_PORTxn SSmode numBytes hexNumber m = Done () m' \<and>
         data_bytes (bus m') = data_bytes (bus m) @ payload @ [DATA_END_CHAR] \<and>
         length payload = unat numBytes \<and>
         hexArrayToUint64_t payload (unat numBytes) = Inr hexNumber"
    using m'(1) length_hex_digits by blast
next
  assume "unat SS_PORTxn < 8 \<and> 2 < ready (polls m)"
  then have "unat (2 :: u8) < ready (polls m)" by simp
  from transmitHex_completes [OF this, of SS_PORTxn SSmode "0x1234"]
  obtain m' where m': "SPI_transmitHex SS_PORTxn SSmode 2 0x1234 m = Done () m'"
    "bus m' = bus m @ Port (start_level (SS_PORT m) SS_PORTxn SSmode) #
              map Data (hex_digits (unat (2 :: u8)) 0x1234 @ [DATA_END_CHAR]) @
              [Port (end_level (SS_PORT m) SS_PORTxn SSmode)]"
    by blast
  have "hex_digits (unat (2 :: u8)) 0x1234 = [0x12, 0x34]"
    by code_simp
  then show "\<exists>m'. SPI_transmitHex SS_PORTxn SSmode 2 0x1234 m = Done () m' \<and>
         bus m' = bus m @ [Port (start_level (SS_PORT m) SS_PORTxn SSmode),
                           Data 0x12, Data 0x34, Data 0x0D,
                           Port (end_level (SS_PORT m) SS_PORTxn SSmode)]"
    using m' by (simp add: DATA_END_CHAR_def)
qed

lemma transmitHex_example:
  "SPI_transmitHex 4 DEFAULT_SS_CONTROL 2 0x1234
      \<lparr>SS_PORT = 0xFF, SPDR = 0, polls = [(False, 0), (True, 0xA1), (True, 0xA2), (True, 0xA3)], bus = []\<rparr> =
    Done () \<lparr>SS_PORT = 0xFF, SPDR = 0xA3, polls = [],
             bus = [Port 0xEF, Data 0x12, Data 0x34, Data 0x0D, Port 0xFF]\<rparr>"
  by code_simp

theorem pack_unpack_roundtrip_witness:
  "(2 :: nat) \<le> length [0x12, 0x34, 0x56 :: u8] \<and>
   hexArrayToUint64_t [0x12, 0x34, 0x56] 2 = Inr 0x1234 \<and>
   well_formed (TransmitHex 2 0x1234) 4 \<and>
   unat (0x1234 :: u64) < 2 ^ (8 * unat (2 :: u8)) \<and>
   unat (2 :: u8) < ready [(False, 0), (True, 0xA1), (True, 0xA2), (True, 0xA3)] \<and>
   SPI_transmitHex 4 DEFAULT_SS_CONTROL 2 0x1234
      \<lparr>SS_PORT = 0xFF, SPDR = 0, polls = [(False, 0), (True, 0xA1), (True, 0xA2), (True, 0xA3)], bus = []\<rparr> =
    Done () \<lparr>SS_PORT = 0xFF, SPDR = 0xA3, polls = [],
             bus = [Port 0xEF, Data 0x12, Data 0x34, Data 0x0D, Port 0xFF]\<rparr> \<and>
   hexArrayToUint64_t [0x12, 0x34] 2 = Inr 0x1234"
proof -
  let ?m = "\<lparr>SS_PORT = 0xFF, SPDR = 0, polls = [(False, 0), (True, 0xA1), (True, 0xA2), (True, 0xA3)], bus = []\<rparr>"
  have h: "(2 :: nat) \<le> length [0x12, 0x34, 0x56 :: u8]"
    "well_formed (TransmitHex 2 0x1234) 4 \<and>
      unat (0x1234 :: u64) < 2 ^ (8 * unat (2 :: u8)) \<and>
      unat (2 :: u8) < ready (polls ?m)"
    by (simp_all add: ready_def)
  have be: "big_endian (take 2 [0x12, 0x34, 0x56]) = 0x1234"
    by code_simp
  note t = pack_unpack_roundtrip [where n = 2 and array = "[0x12, 0x34, 0x56]" and numBytes = 2
      and hexNumber = "0x1234" and m = ?m and SS_PORTxn = 4 and SSmode = DEFAULT_SS_CONTROL]
  from t h(1) be have 1: "hexArrayToUint64_t [0x12, 0x34, 0x56] 2 = Inr 0x1234"
    by simp
  from t h(2) obtain m' payload where
    p: "SPI_transmitHex 4 DEFAULT_SS_CONTROL 2 0x1234 ?m = Done () m'"
       "data_bytes (bus m') = data_bytes (bus ?m) @ payload @ [DATA_END_CHAR]"
       "hexArrayToUint64_t payload (unat (2 :: u8)) = Inr 0x1234"
    by blast
  from p(1) have m': "m' = \<lparr>SS_PORT = 0xFF, SPDR = 0xA3, polls = [],
             bus = [Port 0xEF, Data 0x12, Data 0x34, Data 0x0D, Port 0xFF]\<rparr>"
    by (simp add: transmitHex_example)
  from p(2) have "payload = [0x12, 0x34]"
    unfolding m' by (simp add: DATA_END_CHAR_def)
  with p(3) have 2: "hexArrayToUint64_t [0x12, 0x34] 2 = Inr 0x1234"
    by simp
  show ?thesis
    using h 1 2 transmitHex_example by (simp add: ready_def)
qed

section \<open>String comparison\<close>

lemma strcmp_at_flip:
  "strcmp_at i b a = map_sum id uminus (strcmp_at i a b)"
  by (induction i a b rule: strcmp_at.induct) auto

lemma strcmp_at_total:
  "0 \<in> set a \<Longrightarrow> 0 \<in> set b \<Longrightarrow> \<exists>r. strcmp_at i a b = Inr r"
  by (induction i a b rule: strcmp_at.induct) auto

lemma strcmp_at_zero_iff:
  "0 \<in> set a \<Longrightarrow> 0 \<in> set b \<Longrightarrow>
   strcmp_at i a b = Inr 0 \<longleftrightarrow> c_string a = c_string b"
proof (induction i a b rule: strcmp_at.induct)
  case (1 i a as b bs)
  show ?case
  proof (cases "a = b")
    case True
    then show ?thesis using 1 by (auto simp: c_string_def)
  next
    case False
    then have "unat a \<noteq> unat b"
      by (simp add: word_unat_eq_iff)
    then have "int (unat a) - int (unat b) \<noteq> 0"
      by linarith
    then show ?thesis using False 1 by (auto simp: c_string_def)
  qed
qed simp_all

text \<open>
  Claim C6.  Swapping the arguments of \<open>SPI_strcmp\<close> negates the result.  For two
  zero-terminated byte sequences the comparison returns, and it returns 0 exactly when
  the bytes before the two terminators are the same.  Comparing \<open>0x41, 0x42, 0x00\<close> with
  the string \<open>AB\<close> gives 0.
\<close>

theorem SPI_strcmp_antisymmetric_and_zero:
  "SPI_strcmp b a = map_sum id uminus (SPI_strcmp a b) \<and>
   (0 \<in> set a \<and> 0 \<in> set b \<longrightarrow>
      (\<exists>r. SPI_strcmp a b = Inr r \<and> SPI_strcmp b a = Inr (- r)) \<and>
      (SPI_strcmp a b = Inr 0 \<longleftrightarrow> c_string a = c_string b)) \<and>
   SPI_strcmp [0x41, 0x42, 0x00] [0x41, 0x42, 0x00] = Inr 0"
proof -
  have flip: "SPI_strcmp b a = map_sum id uminus (SPI_strcmp a b)" for a b
    unfolding SPI_strcmp_def strcmp_def by (rule strcmp_at_flip)
  have "(\<exists>r. SPI_strcmp a b = Inr r \<and> SPI_strcmp b a = Inr (- r)) \<and>
      (SPI_strcmp a b = Inr 0 \<longleftrightarrow> c_string a = c_string b)"
    if z: "0 \<in> set a" "0 \<in> set b"
  proof -
    obtain r where r: "SPI_strcmp a b = Inr r"
      using strcmp_at_total [OF z] unfolding SPI_strcmp_def strcmp_def by blast
    then have "SPI_strcmp b a = Inr (- r)"
      using flip [of b a] by simp
    moreover have "SPI_strcmp a b = Inr 0 \<longleftrightarrow> c_string a = c_string b"
      unfolding SPI_strcmp_def strcmp_def by (rule strcmp_at_zero_iff [OF z])
    ultimately show ?thesis using r by simp
  qed
  moreover have "SPI_strcmp [0x41, 0x42, 0x00] [0x41, 0x42, 0x00] = Inr 0"
    by (simp add: SPI_strcmp_def strcmp_def)
  ultimately show ?thesis using flip by blast
qed

theorem SPI_strcmp_antisymmetric_and_zero_witness:
  "SPI_strcmp [0x41, 0x43, 0x00] [0x41, 0x42, 0x44, 0x00, 0x07] = Inr 1 \<and>
   SPI_strcmp [0x41, 0x42, 0x44, 0x00, 0x07] [0x41, 0x43, 0x00] = Inr (- 1) \<and>
   c_string [0x41, 0x43, 0x00] \<noteq> c_string [0x41, 0x42, 0x44, 0x00, 0x07] \<and>
   SPI_strcmp [0x41, 0x42, 0x00, 0x09] [0x41, 0x42, 0x00] = Inr 0 \<and>
   c_string [0x41, 0x42, 0x00, 0x09] = c_string [0x41, 0x42, 0x00]"
  using SPI_strcmp_antisymmetric_and_zero [of "[0x41, 0x42, 0x44, 0x00, 0x07]" "[0x41, 0x43, 0x00]"]
    SPI_strcmp_antisymmetric_and_zero [of "[0x41, 0x42, 0x00]" "[0x41, 0x42, 0x00, 0x09]"]
  by (simp add: SPI_strcmp_def strcmp_def c_string_def)

section \<open>The swap and the receive interrupt\<close>

subsection \<open>Without interrupts the statements amount to the call\<close>

lemma exec_append:
  "exec (xs @ ys) c = (case exec xs c of Inl e \<Rightarrow> Inl e | Inr c' \<Rightarrow> exec ys c')"
proof (induction xs arbitrary: c)
  case Nil
  then show ?case by simp
next
  case (Cons x xs)
  then show ?case by (cases x) (auto split: sum.splits)
qed

lemma steps_then:
  "exec (replicate a Step) c = Inr c' \<Longrightarrow>
   exec (replicate (a + b) Step) c = exec (replicate b Step) c'"
  by (simp add: replicate_add exec_append)

lemma one_step:
  "foreground c = Inr c' \<Longrightarrow> exec (replicate (Suc b) Step) c = exec (replicate b Step) c'"
  by simp

lemma one_step_fault:
  "foreground c = Inl e \<Longrightarrow> exec (replicate (Suc b) Step) c = Inl e"
  by simp

lemma flush_steps:
  "at c = In_flush n i \<Longrightarrow> SPI_data (vars c) = array \<Longrightarrow>
   \<exists>k. exec (replicate k Step) c =
     (case flush_from i array n of
        Inl e \<Rightarrow> Inl e
      | Inr d \<Rightarrow> Inr (c\<lparr>at := In_copy 0, vars := (vars c)\<lparr>SPI_data := d\<rparr>\<rparr>))"
proof (induction i array n arbitrary: c rule: flush_from.induct)
  case (1 i array n)
  consider (body) "i < n" "i < length array" | (fault) "i < n" "\<not> i < length array"
    | (leave) "\<not> i < n" by blast
  then show ?case
  proof cases
    case body
    let ?c1 = "c\<lparr>at := In_flush n (Suc i), vars := (vars c)\<lparr>SPI_data := array[i := 0]\<rparr>\<rparr>"
    have f: "foreground c = Inr ?c1"
      using body 1(2,3) by (simp add: foreground_def)
    obtain k where k: "exec (replicate k Step) ?c1 =
       (case flush_from (Suc i) (array[i := 0]) n of
          Inl e \<Rightarrow> Inl e
        | Inr d \<Rightarrow> Inr (?c1\<lparr>at := In_copy 0, vars := (vars ?c1)\<lparr>SPI_data := d\<rparr>\<rparr>))"
      using 1(1) [OF body, of ?c1] by auto
    have e: "exec (replicate (Suc k) Step) c = exec (replicate k Step) ?c1"
      by (rule one_step [OF f])
    have fl: "flush_from i array n = flush_from (Suc i) (array[i := 0]) n"
      using body by (subst flush_from.simps) simp
    have "exec (replicate (Suc k) Step) c =
       (case flush_from i array n of
          Inl e \<Rightarrow> Inl e
        | Inr d \<Rightarrow> Inr (c\<lparr>at := In_copy 0, vars := (vars c)\<lparr>SPI_data := d\<rparr>\<rparr>))"
      unfolding e fl k by (simp split: sum.splits)
    then show ?thesis by blast
  next
    case fault
    have "foreground c = Inl (OutOfBounds i)"
      using fault 1(2,3) by (simp add: foreground_def)
    then have "exec (replicate (Suc 0) Step) c = Inl (OutOfBounds i)"
      by (rule one_step_fault)
    then show ?thesis
      using fault by (subst flush_from.simps) (auto intro: exI [of _ "Suc 0"])
  next
    case leave
    have "foreground c = Inr (c\<lparr>at := In_copy 0\<rparr>)"
      using leave 1(2) by (simp add: foreground_def)
    then have "exec (replicate (Suc 0) Step) c = Inr (c\<lparr>at := In_copy 0\<rparr>)"
      by simp
    moreover have "c\<lparr>at := In_copy 0, vars := (vars c)\<lparr>SPI_data := array\<rparr>\<rparr> = c\<lparr>at := In_copy 0\<rparr>"
      using 1(3) by simp
    ultimately show ?thesis
      using leave by (subst flush_from.simps) (auto intro: exI [of _ "Suc 0"])
  qed
qed

lemma copy_steps:
  "at c = In_copy i \<Longrightarrow> SPI_buffer (vars c) = buf \<Longrightarrow> SPI_data (vars c) = dat \<Longrightarrow>
   \<exists>k. exec (replicate k Step) c =
     (case copy_from i buf dat of
        Inl e \<Rightarrow> Inl e
      | Inr d \<Rightarrow> Inr (c\<lparr>at := In_zero 0, vars := (vars c)\<lparr>SPI_data := d\<rparr>\<rparr>))"
proof (induction i buf dat arbitrary: c rule: copy_from.induct)
  case (1 i buf dat)
  consider (body) "i < length buf" "buf ! i \<noteq> DATA_END_CHAR" "i < length dat"
    | (fault) "\<not> i < length buf \<or> buf ! i \<noteq> DATA_END_CHAR \<and> \<not> i < length dat"
    | (leave) "i < length buf" "buf ! i = DATA_END_CHAR" by blast
  then show ?case
  proof cases
    case body
    let ?c1 = "c\<lparr>at := In_copy (Suc i), vars := (vars c)\<lparr>SPI_data := dat[i := buf ! i]\<rparr>\<rparr>"
    have f: "foreground c = Inr ?c1"
      using body 1(2,3,4) by (simp add: foreground_def)
    obtain k where k: "exec (replicate k Step) ?c1 =
       (case copy_from (Suc i) buf (dat[i := buf ! i]) of
          Inl e \<Rightarrow> Inl e
        | Inr d \<Rightarrow> Inr (?c1\<lparr>at := In_zero 0, vars := (vars ?c1)\<lparr>SPI_data := d\<rparr>\<rparr>))"
      using 1(1) [OF body, of ?c1] 1(3) by auto
    have e: "exec (replicate (Suc k) Step) c = exec (replicate k Step) ?c1"
      by (rule one_step [OF f])
    have fl: "copy_from i buf dat = copy_from (Suc i) buf (dat[i := buf ! i])"
      using body by (subst copy_from.simps) simp
    have "exec (replicate (Suc k) Step) c =
       (case copy_from i buf dat of
          Inl e \<Rightarrow> Inl e
        | Inr d \<Rightarrow> Inr (c\<lparr>at := In_zero 0, vars := (vars c)\<lparr>SPI_data := d\<rparr>\<rparr>))"
      unfolding e fl k by (simp split: sum.splits)
    then show ?thesis by blast
  next
    case fault
    have "foreground c = Inl (OutOfBounds i)"
      using fault 1(2,3,4) by (auto simp: foreground_def)
    then have "exec (replicate (Suc 0) Step) c = Inl (OutOfBounds i)"
      by (rule one_step_fault)
    moreover have "copy_from i buf dat = Inl (OutOfBounds i)"
      using fault by (subst copy_from.simps) auto
    ultimately show ?thesis
      by (auto intro: exI [of _ "Suc 0"])
  next
    case leave
    have "foreground c = Inr (c\<lparr>at := In_zero 0\<rparr>)"
      using leave 1(2,3) by (simp add: foreground_def)
    then have "exec (replicate (Suc 0) Step) c = Inr (c\<lparr>at := In_zero 0\<rparr>)"
      by simp
    moreover have "c\<lparr>at := In_zero 0, vars := (vars c)\<lparr>SPI_data := dat\<rparr>\<rparr> = c\<lparr>at := In_zero 0\<rparr>"
      using 1(4) by simp
    moreover have "copy_from i buf dat = Inr dat"
      using leave by (subst copy_from.simps) simp
    ultimately show ?thesis
      by (auto intro: exI [of _ "Suc 0"])
  qed
qed

lemma zero_steps:
  "at c = In_zero i \<Longrightarrow> SPI_buffer (vars c) = array \<Longrightarrow> unat (receivedBytes (vars c)) = n \<Longrightarrow>
   \<exists>k. exec (replicate k Step) c =
     (case flush_from i array n of
        Inl e \<Rightarrow> Inl e
      | Inr b \<Rightarrow> Inr (c\<lparr>at := At_clear_flag, vars := (vars c)\<lparr>SPI_buffer := b\<rparr>\<rparr>))"
proof (induction i array n arbitrary: c rule: flush_from.induct)
  case (1 i array n)
  consider (body) "i < n" "i < length array" | (fault) "i < n" "\<not> i < length array"
    | (leave) "\<not> i < n" by blast
  then show ?case
  proof cases
    case body
    let ?c1 = "c\<lparr>at := In_zero (Suc i), vars := (vars c)\<lparr>SPI_buffer := array[i := 0]\<rparr>\<rparr>"
    have f: "foreground c = Inr ?c1"
      using body 1(2,3,4) by (simp add: foreground_def)
    obtain k where k: "exec (replicate k Step) ?c1 =
       (case flush_from (Suc i) (array[i := 0]) n of
          Inl e \<Rightarrow> Inl e
        | Inr b \<Rightarrow> Inr (?c1\<lparr>at := At_clear_flag, vars := (vars ?c1)\<lparr>SPI_buffer := b\<rparr>\<rparr>))"
      using 1(1) [OF body, of ?c1] 1(4) by auto
    have e: "exec (replicate (Suc k) Step) c = exec (replicate k Step) ?c1"
      by (rule one_step [OF f])
    have fl: "flush_from i array n = flush_from (Suc i) (array[i := 0]) n"
      using body by (subst flush_from.simps) simp
    have "exec (replicate (Suc k) Step) c =
       (case flush_from i array n of
          Inl e \<Rightarrow> Inl e
        | Inr b \<Rightarrow> Inr (c\<lparr>at := At_clear_flag, vars := (vars c)\<lparr>SPI_buffer := b\<rparr>\<rparr>))"
      unfolding e fl k by (simp split: sum.splits)
    then show ?thesis by blast
  next
    case fault
    have "foreground c = Inl (OutOfBounds i)"
      using fault 1(2,3,4) by (simp add: foreground_def)
    then have "exec (replicate (Suc 0) Step) c = Inl (OutOfBounds i)"
      by (rule one_step_fault)
    then show ?thesis
      using fault by (subst flush_from.simps) (auto intro: exI [of _ "Suc 0"])
  next
    case leave
    have "foreground c = Inr (c\<lparr>at := At_clear_flag\<rparr>)"
      using leave 1(2,4) by (simp add: foreground_def)
    then have "exec (replicate (Suc 0) Step) c = Inr (c\<lparr>at := At_clear_flag\<rparr>)"
      by simp
    moreover have "c\<lparr>at := At_clear_flag, vars := (vars c)\<lparr>SPI_buffer := array\<rparr>\<rparr> = c\<lparr>at := At_clear_flag\<rparr>"
      using 1(3) by simp
    ultimately show ?thesis
      using leave by (subst flush_from.simps) (auto intro: exI [of _ "Suc 0"])
  qed
qed

lemma undisturbed_readAll:
  "\<exists>k. exec (replicate k Step) \<lparr>at = At_if, interrupts = e, vars = s\<rparr> =
     (case SPI_readAll s of
        Inl f \<Rightarrow> Inl f
      | Inr (r, s') \<Rightarrow> Inr \<lparr>at = Returned r, interrupts = e, vars = s'\<rparr>)"
proof (cases "dataReceived s")
  case False
  then have "exec (replicate (Suc 0) Step) \<lparr>at = At_if, interrupts = e, vars = s\<rparr> =
      Inr \<lparr>at = Returned False, interrupts = e, vars = s\<rparr>"
    by (simp add: foreground_def)
  then show ?thesis
    using False by (auto simp: SPI_readAll_def intro: exI [of _ "Suc 0"])
next
  case True
  let ?n = "unat (receivedBytes s)"
  let ?c2 = "\<lparr>at = In_flush ?n 0, interrupts = e, vars = s\<rparr>"
  have start: "exec (replicate 2 Step) \<lparr>at = At_if, interrupts = e, vars = s\<rparr> = Inr ?c2"
    using True by (simp add: numeral_2_eq_2 foreground_def)
  obtain k1 where k1: "exec (replicate k1 Step) ?c2 =
     (case flush_from 0 (SPI_data s) ?n of
        Inl f \<Rightarrow> Inl f
      | Inr d \<Rightarrow> Inr (?c2\<lparr>at := In_copy 0, vars := (vars ?c2)\<lparr>SPI_data := d\<rparr>\<rparr>))"
    using flush_steps [of ?c2 ?n 0 "SPI_data s"] by auto
  show ?thesis
  proof (cases "flush_from 0 (SPI_data s) ?n")
    case (Inl f)
    then have "exec (replicate (2 + k1) Step) \<lparr>at = At_if, interrupts = e, vars = s\<rparr> = Inl f"
      using k1 unfolding steps_then [OF start] by simp
    then show ?thesis
      using True Inl by (auto simp: SPI_readAll_def flushBuffer_def intro: exI [of _ "2 + k1"])
  next
    case (Inr d0)
    let ?c3 = "\<lparr>at = In_copy 0, interrupts = e, vars = s\<lparr>SPI_data := d0\<rparr>\<rparr>"
    have to3: "exec (replicate (2 + k1) Step) \<lparr>at = At_if, interrupts = e, vars = s\<rparr> = Inr ?c3"
      using k1 Inr unfolding steps_then [OF start] by simp
    obtain k2 where k2: "exec (replicate k2 Step) ?c3 =
       (case copy_from 0 (SPI_buffer s) d0 of
          Inl f \<Rightarrow> Inl f
        | Inr d \<Rightarrow> Inr (?c3\<lparr>at := In_zero 0, vars := (vars ?c3)\<lparr>SPI_data := d\<rparr>\<rparr>))"
      using copy_steps [of ?c3 0 "SPI_buffer s" d0] by auto
    show ?thesis
    proof (cases "copy_from 0 (SPI_buffer s) d0")
      case (Inl f)
      then have "exec (replicate (2 + k1 + k2) Step) \<lparr>at = At_if, interrupts = e, vars = s\<rparr> = Inl f"
        using k2 unfolding steps_then [OF to3] by simp
      then show ?thesis
        using True \<open>flush_from 0 (SPI_data s) ?n = Inr d0\<close> Inl
        by (auto simp: SPI_readAll_def flushBuffer_def intro: exI [of _ "2 + k1 + k2"])
    next
      case (Inr d1)
      let ?c4 = "\<lparr>at = In_zero 0, interrupts = e, vars = s\<lparr>SPI_data := d1\<rparr>\<rparr>"
      have to4: "exec (replicate (2 + k1 + k2) Step) \<lparr>at = At_if, interrupts = e, vars = s\<rparr> = Inr ?c4"
        using k2 Inr unfolding steps_then [OF to3] by simp
      obtain k3 where k3: "exec (replicate k3 Step) ?c4 =
         (case flush_from 0 (SPI_buffer s) ?n of
            Inl f \<Rightarrow> Inl f
          | Inr b \<Rightarrow> Inr (?c4\<lparr>at := At_clear_flag, vars := (vars ?c4)\<lparr>SPI_buffer := b\<rparr>\<rparr>))"
        using zero_steps [of ?c4 0 "SPI_buffer s" ?n] by auto
      show ?thesis
      proof (cases "flush_from 0 (SPI_buffer s) ?n")
        case (Inl f)
        then have "exec (replicate (2 + k1 + k2 + k3) Step) \<lparr>at = At_if, interrupts = e, vars = s\<rparr> = Inl f"
          using k3 unfolding steps_then [OF to4] by simp
        then show ?thesis
          using True \<open>flush_from 0 (SPI_data s) ?n = Inr d0\<close>
            \<open>copy_from 0 (SPI_buffer s) d0 = Inr d1\<close> Inl
          by (auto simp: SPI_readAll_def flushBuffer_def intro: exI [of _ "2 + k1 + k2 + k3"])
      next
        case (Inr b1)
        let ?c5 = "\<lparr>at = At_clear_flag, interrupts = e, vars = s\<lparr>SPI_data := d1, SPI_buffer := b1\<rparr>\<rparr>"
        have to5: "exec (replicate (2 + k1 + k2 + k3) Step) \<lparr>at = At_if, interrupts = e, vars = s\<rparr> = Inr ?c5"
          using k3 Inr unfolding steps_then [OF to4] by simp
        have "exec (replicate 2 Step) ?c5 =
            Inr \<lparr>at = Returned True, interrupts = e,
                 vars = s\<lparr>SPI_data := d1, SPI_buffer := b1, dataReceived := False,
                          receivedBytes := 0\<rparr>\<rparr>"
          by (simp add: numeral_2_eq_2 foreground_def)
        then have "exec (replicate (2 + k1 + k2 + k3 + 2) Step) \<lparr>at = At_if, interrupts = e, vars = s\<rparr> =
            Inr \<lparr>at = Returned True, interrupts = e,
                 vars = s\<lparr>SPI_data := d1, SPI_buffer := b1, dataReceived := False,
                          receivedBytes := 0\<rparr>\<rparr>"
          by (simp only: steps_then [OF to5])
        then show ?thesis
          using True \<open>flush_from 0 (SPI_data s) ?n = Inr d0\<close>
            \<open>copy_from 0 (SPI_buffer s) d0 = Inr d1\<close> Inr
          by (auto simp: SPI_readAll_def flushBuffer_def intro: exI [of _ "2 + k1 + k2 + k3 + 2"])
      qed
    qed
  qed
qed

text \<open>
  Claim C9, as the code has it.  No statement of \<open>SPI_readAll\<close> changes the interrupt
  enable, so the receive interrupt stays enabled across the whole swap when it was
  enabled at the call.  Run without a receive interrupt in between, the statements of
  \<open>SPI_readAll\<close> end with exactly the result of the call taken as one step, fault
  included.
\<close>

theorem swap_leaves_interrupt_enabled:
  "(\<forall>c'. foreground c = Inr c' \<longrightarrow> interrupts c' = interrupts c) \<and>
   (\<exists>k. exec (replicate k Step) \<lparr>at = At_if, interrupts = e, vars = s\<rparr> =
     (case SPI_readAll s of
        Inl f \<Rightarrow> Inl f
      | Inr (r, s') \<Rightarrow> Inr \<lparr>at = Returned r, interrupts = e, vars = s'\<rparr>))"
proof -
  have "\<forall>c'. foreground c = Inr c' \<longrightarrow> interrupts c' = interrupts c"
    by (auto simp: foreground_def split: sum.splits)
  then show ?thesis
    using undisturbed_readAll [of e s] by blast
qed

lemma readAll_alone_example:
  "foreground \<lparr>at = At_clear_flag, interrupts = True,
       vars = \<lparr>SPI_data = [0x41] @ replicate 50 0, SPI_buffer = [0, 0x0D] @ replicate 49 0,
          dataIndex = 0, dataReceived = True, receivedBytes = 1\<rparr>\<rparr> =
     Inr \<lparr>at = At_clear_count, interrupts = True,
       vars = \<lparr>SPI_data = [0x41] @ replicate 50 0, SPI_buffer = [0, 0x0D] @ replicate 49 0,
          dataIndex = 0, dataReceived = False, receivedBytes = 1\<rparr>\<rparr>"
  "exec (replicate 10 Step) \<lparr>at = At_if, interrupts = True,
       vars = \<lparr>SPI_data = replicate 51 0, SPI_buffer = [0x41, 0x0D] @ replicate 49 0,
          dataIndex = 0, dataReceived = True, receivedBytes = 1\<rparr>\<rparr> =
     Inr \<lparr>at = Returned True, interrupts = True,
       vars = \<lparr>SPI_data = [0x41] @ replicate 50 0, SPI_buffer = [0, 0x0D] @ replicate 49 0,
          dataIndex = 0, dataReceived = False, receivedBytes = 0\<rparr>\<rparr>"
  "SPI_readAll \<lparr>SPI_data = replicate 51 0, SPI_buffer = [0x41, 0x0D] @ replicate 49 0,
          dataIndex = 0, dataReceived = True, receivedBytes = 1\<rparr> =
     Inr (True, \<lparr>SPI_data = [0x41] @ replicate 50 0, SPI_buffer = [0, 0x0D] @ replicate 49 0,
          dataIndex = 0, dataReceived = False, receivedBytes = 0\<rparr>)"
  by code_simp+

theorem swap_leaves_interrupt_enabled_witness:
  "foreground \<lparr>at = At_clear_flag, interrupts = True,
       vars = \<lparr>SPI_data = [0x41] @ replicate 50 0, SPI_buffer = [0, 0x0D] @ replicate 49 0,
          dataIndex = 0, dataReceived = True, receivedBytes = 1\<rparr>\<rparr> =
     Inr \<lparr>at = At_clear_count, interrupts = True,
       vars = \<lparr>SPI_data = [0x41] @ replicate 50 0, SPI_buffer = [0, 0x0D] @ replicate 49 0,
          dataIndex = 0, dataReceived = False, receivedBytes = 1\<rparr>\<rparr> \<and>
   interrupts \<lparr>at = At_clear_count, interrupts = True,
       vars = \<lparr>SPI_data = [0x41] @ replicate 50 0, SPI_buffer = [0, 0x0D] @ replicate 49 0,
          dataIndex = 0, dataReceived = False, receivedBytes = 1\<rparr>\<rparr> \<and>
   exec (replicate 10 Step) \<lparr>at = At_if, interrupts = True,
       vars = \<lparr>SPI_data = replicate 51 0, SPI_buffer = [0x41, 0x0D] @ replicate 49 0,
          dataIndex = 0, dataReceived = True, receivedBytes = 1\<rparr>\<rparr> =
     Inr \<lparr>at = Returned True, interrupts = True,
       vars = \<lparr>SPI_data = [0x41] @ replicate 50 0, SPI_buffer = [0, 0x0D] @ replicate 49 0,
          dataIndex = 0, dataReceived = False, receivedBytes = 0\<rparr>\<rparr> \<and>
   SPI_readAll \<lparr>SPI_data = replicate 51 0, SPI_buffer = [0x41, 0x0D] @ replicate 49 0,
          dataIndex = 0, dataReceived = True, receivedBytes = 1\<rparr> =
     Inr (True, \<lparr>SPI_data = [0x41] @ replicate 50 0, SPI_buffer = [0, 0x0D] @ replicate 49 0,
          dataIndex = 0, dataReceived = False, receivedBytes = 0\<rparr>)"
proof -
  let ?c = "\<lparr>at = At_clear_flag, interrupts = True,
       vars = \<lparr>SPI_data = [0x41] @ replicate 50 0, SPI_buffer = [0, 0x0D] @ replicate 49 0,
          dataIndex = 0, dataReceived = True, receivedBytes = 1\<rparr>\<rparr>"
  from swap_leaves_interrupt_enabled [where c = ?c] readAll_alone_example(1)
  have "interrupts \<lparr>at = At_clear_count, interrupts = True,
       vars = \<lparr>SPI_data = [0x41] @ replicate 50 0, SPI_buffer = [0, 0x0D] @ replicate 49 0,
          dataIndex = 0, dataReceived = False, receivedBytes = 1\<rparr>\<rparr>"
    by simp
  then show ?thesis
    using readAll_alone_example by simp
qed

text \<open>
  The swap is not atomic.  The message \<open>A\<close> is pending and the foreground has reached
  the assignment \<open>dataReceived = false\<close> when the message \<open>B\<close> and its terminator
  arrive.  The call returns true with \<open>A\<close> in the stable buffer, clears the flag the
  handler has just raised, and the next call returns false: the second terminator is
  missed.  None of the three orders in which the call could run as one step among the two
  interrupts ends in that state.
\<close>

theorem swap_interrupted_loses_message:
  "receive [0x41, 0x0D] (init_state DATA_LENGTH) =
     Inr \<lparr>SPI_data = replicate 51 0, SPI_buffer = [0x41, 0x0D] @ replicate 49 0,
          dataIndex = 0, dataReceived = True, receivedBytes = 1\<rparr> \<and>
   exec (replicate 8 Step @ [Interrupt 0x42, Interrupt 0x0D, Step, Step])
      \<lparr>at = At_if, interrupts = True,
       vars = \<lparr>SPI_data = replicate 51 0, SPI_buffer = [0x41, 0x0D] @ replicate 49 0,
          dataIndex = 0, dataReceived = True, receivedBytes = 1\<rparr>\<rparr> =
     Inr \<lparr>at = Returned True, interrupts = True,
       vars = \<lparr>SPI_data = [0x41] @ replicate 50 0, SPI_buffer = [0x42, 0x0D] @ replicate 49 0,
          dataIndex = 0, dataReceived = False, receivedBytes = 0\<rparr>\<rparr> \<and>
   SPI_readAll \<lparr>SPI_data = [0x41] @ replicate 50 0, SPI_buffer = [0x42, 0x0D] @ replicate 49 0,
          dataIndex = 0, dataReceived = False, receivedBytes = 0\<rparr> =
     Inr (False, \<lparr>SPI_data = [0x41] @ replicate 50 0, SPI_buffer = [0x42, 0x0D] @ replicate 49 0,
          dataIndex = 0, dataReceived = False, receivedBytes = 0\<rparr>) \<and>
   run [ReadAll, Rx 0x42, Rx 0x0D]
      \<lparr>SPI_data = replicate 51 0, SPI_buffer = [0x41, 0x0D] @ replicate 49 0,
          dataIndex = 0, dataReceived = True, receivedBytes = 1\<rparr> =
     Inr \<lparr>SPI_data = [0x41] @ replicate 50 0, SPI_buffer = [0x42, 0x0D] @ replicate 49 0,
          dataIndex = 0, dataReceived = True, receivedBytes = 1\<rparr> \<and>
   run [Rx 0x42, ReadAll, Rx 0x0D]
      \<lparr>SPI_data = replicate 51 0, SPI_buffer = [0x41, 0x0D] @ replicate 49 0,
          dataIndex = 0, dataReceived = True, receivedBytes = 1\<rparr> =
     Inr \<lparr>SPI_data = [0x42] @ replicate 50 0, SPI_buffer = [0, 0x0D] @ replicate 49 0,
          dataIndex = 0, dataReceived = True, receivedBytes = 0\<rparr> \<and>
   run [Rx 0x42, Rx 0x0D, ReadAll]
      \<lparr>SPI_data = replicate 51 0, SPI_buffer = [0x41, 0x0D] @ replicate 49 0,
          dataIndex = 0, dataReceived = True, receivedBytes = 1\<rparr> =
     Inr \<lparr>SPI_data = [0x42] @ replicate 50 0, SPI_buffer = replicate 51 0,
          dataIndex = 0, dataReceived = False, receivedBytes = 0\<rparr>"
  by code_simp

end
